theory Spec2Isabelle
  imports Complex_Main "HOL-Library.Multiset" "HOL-Library.Char_ord" "HOL-Library.List_Lexorder"
begin

section \<open>Python values used by the LUXBIN quantum loop\<close>

text \<open>
  The development follows \<^verbatim>\<open>luxbin_persistent_loop.py\<close> (codebook, decoder, persistent
  loop) and the pipeline of \<^verbatim>\<open>luxbin_quantum_full_experiment.py\<close>. Exceptions are
  values: every function that can raise returns \<open>error + 'a\<close>, \<open>Inl\<close> carrying the
  exception.

  Python floats are modelled by exact rationals. The codebook values and the channel
  formulas are the source's decimal literals read exactly; rounding of a float operation
  is not modelled.
\<close>

datatype error =
    ValueError
  | IndexError
  | AttributeError
  | OSError
  | OracleError string

text \<open>
  \<^verbatim>\<open>min(items, key=f)\<close> and \<^verbatim>\<open>max(items, key=f)\<close>: one scan from the left that replaces the
  best item only by a strictly better one, so the first of several equally good items is
  returned; an empty iterable raises \<^verbatim>\<open>ValueError\<close>.
\<close>

fun min_scan :: "('a \<Rightarrow> 'k::linorder) \<Rightarrow> 'a \<Rightarrow> 'a list \<Rightarrow> 'a" where
  "min_scan key best [] = best"
| "min_scan key best (x # xs) = min_scan key (if key x < key best then x else best) xs"

fun max_scan :: "('a \<Rightarrow> 'k::linorder) \<Rightarrow> 'a \<Rightarrow> 'a list \<Rightarrow> 'a" where
  "max_scan key best [] = best"
| "max_scan key best (x # xs) = max_scan key (if key best < key x then x else best) xs"

definition py_min :: "('a \<Rightarrow> 'k::linorder) \<Rightarrow> 'a list \<Rightarrow> error + 'a" where
  "py_min key items = (case items of [] \<Rightarrow> Inl ValueError | x # xs \<Rightarrow> Inr (min_scan key x xs))"

definition py_max :: "('a \<Rightarrow> 'k::linorder) \<Rightarrow> 'a list \<Rightarrow> error + 'a" where
  "py_max key items = (case items of [] \<Rightarrow> Inl ValueError | x # xs \<Rightarrow> Inr (max_scan key x xs))"

section \<open>Codebook and channel codec\<close>

text \<open>The three tables, in the order the dict literals list their items.\<close>

definition CHAR_WAVELENGTHS :: "(char \<times> rat) list" where
  "CHAR_WAVELENGTHS =
    [(CHR ''A'', 400.0), (CHR ''B'', 403.9), (CHR ''C'', 407.8), (CHR ''D'', 411.7), (CHR ''E'', 415.6),
     (CHR ''F'', 419.5), (CHR ''G'', 423.4), (CHR ''H'', 427.3), (CHR ''I'', 431.2), (CHR ''J'', 435.1),
     (CHR ''K'', 439.0), (CHR ''L'', 442.9), (CHR ''M'', 446.8), (CHR ''N'', 450.6), (CHR ''O'', 454.5),
     (CHR ''P'', 458.4), (CHR ''Q'', 462.3), (CHR ''R'', 466.2), (CHR ''S'', 470.1), (CHR ''T'', 474.0),
     (CHR ''U'', 477.9), (CHR ''V'', 481.8), (CHR ''W'', 485.7), (CHR ''X'', 489.6), (CHR ''Y'', 493.5),
     (CHR ''Z'', 497.4), (CHR '' '', 540.3)]"

definition CHAR_FREQUENCIES :: "(char \<times> rat) list" where
  "CHAR_FREQUENCIES =
    [(CHR ''A'', 440.0), (CHR ''B'', 493.9), (CHR ''C'', 523.3), (CHR ''D'', 587.3), (CHR ''E'', 659.3),
     (CHR ''F'', 698.5), (CHR ''G'', 784.0), (CHR ''H'', 830.6), (CHR ''I'', 880.0), (CHR ''J'', 932.3),
     (CHR ''K'', 987.8), (CHR ''L'', 1046.5), (CHR ''M'', 1108.7), (CHR ''N'', 1174.7), (CHR ''O'', 1244.5),
     (CHR ''P'', 1318.5), (CHR ''Q'', 1396.9), (CHR ''R'', 1480.0), (CHR ''S'', 1568.0), (CHR ''T'', 1661.2),
     (CHR ''U'', 1760.0), (CHR ''V'', 1864.7), (CHR ''W'', 1975.5), (CHR ''X'', 2093.0), (CHR ''Y'', 2217.5),
     (CHR ''Z'', 2349.3), (CHR '' '', 262.6)]"

definition CHAR_MICROWAVES :: "(char \<times> rat) list" where
  "CHAR_MICROWAVES =
    [(CHR ''A'', 4.000), (CHR ''B'', 4.154), (CHR ''C'', 4.308), (CHR ''D'', 4.462), (CHR ''E'', 4.615),
     (CHR ''F'', 4.769), (CHR ''G'', 4.923), (CHR ''H'', 5.077), (CHR ''I'', 5.231), (CHR ''J'', 5.385),
     (CHR ''K'', 5.538), (CHR ''L'', 5.692), (CHR ''M'', 5.846), (CHR ''N'', 6.000), (CHR ''O'', 6.154),
     (CHR ''P'', 6.308), (CHR ''Q'', 6.462), (CHR ''R'', 6.615), (CHR ''S'', 6.769), (CHR ''T'', 6.923),
     (CHR ''U'', 7.077), (CHR ''V'', 7.231), (CHR ''W'', 7.385), (CHR ''X'', 7.538), (CHR ''Y'', 7.692),
     (CHR ''Z'', 7.846), (CHR '' '', 5.500)]"

definition MW_MIN :: rat where "MW_MIN = 4.0"
definition MW_MAX :: rat where "MW_MAX = 8.0"

text \<open>
  \<^verbatim>\<open>min(TABLE.items(), key=lambda x: abs(x[1] - v))[0]\<close>: the symbol of the first item
  whose value is nearest to \<open>v\<close>.
\<close>

definition nearest_char :: "(char \<times> rat) list \<Rightarrow> rat \<Rightarrow> error + char" where
  "nearest_char table v = map_sum id fst (py_min (\<lambda>x. \<bar>snd x - v\<bar>) table)"

definition wavelength_to_char :: "rat \<Rightarrow> error + char" where
  "wavelength_to_char wl = nearest_char CHAR_WAVELENGTHS wl"

definition frequency_to_char :: "rat \<Rightarrow> error + char" where
  "frequency_to_char freq = nearest_char CHAR_FREQUENCIES freq"

definition microwave_to_char :: "rat \<Rightarrow> error + char" where
  "microwave_to_char mw = nearest_char CHAR_MICROWAVES mw"

section \<open>Outcome decoder\<close>

subsection \<open>\<^verbatim>\<open>int(bitstring, 2)\<close>\<close>

text \<open>
  Python's \<^verbatim>\<open>int(s, 2)\<close> on a \<^verbatim>\<open>str\<close>, for characters with code points below 256:
  whitespace is stripped at both ends, one sign may follow, then an optional prefix
  \<^verbatim>\<open>0b\<close> or \<^verbatim>\<open>0B\<close> (after which one underscore is allowed), then at least one binary
  digit, single underscores being allowed between digits. Anything else, the empty string
  included, raises \<^verbatim>\<open>ValueError\<close>.
\<close>

definition py_isspace :: "char \<Rightarrow> bool" where
  "py_isspace c \<longleftrightarrow> (of_char c :: nat) \<in> {9, 10, 11, 12, 13, 32, 133, 160}"

definition is_bit :: "char \<Rightarrow> bool" where
  "is_bit c \<longleftrightarrow> c = CHR ''0'' \<or> c = CHR ''1''"

definition bit_val :: "char \<Rightarrow> int" where
  "bit_val c = (if c = CHR ''1'' then 1 else 0)"

fun bin_digits :: "int \<Rightarrow> string \<Rightarrow> error + int" where
  "bin_digits acc [] = Inr acc"
| "bin_digits acc [c] = (if is_bit c then Inr (2 * acc + bit_val c) else Inl ValueError)"
| "bin_digits acc (c # d # ds) =
     (if is_bit c then bin_digits (2 * acc + bit_val c) (d # ds)
      else if c = CHR ''_'' \<and> is_bit d then bin_digits (2 * acc + bit_val d) ds
      else Inl ValueError)"

definition strip :: "string \<Rightarrow> string" where
  "strip s = rev (dropWhile py_isspace (rev (dropWhile py_isspace s)))"

definition split_sign :: "string \<Rightarrow> bool \<times> string" where
  "split_sign s =
     (case s of
        [] \<Rightarrow> (False, s)
      | c # r \<Rightarrow> if c = CHR ''-'' then (True, r) else if c = CHR ''+'' then (False, r) else (False, s))"

definition skip_prefix :: "string \<Rightarrow> string" where
  "skip_prefix s =
     (case s of
        a # b # r \<Rightarrow>
          if a = CHR ''0'' \<and> (b = CHR ''b'' \<or> b = CHR ''B'')
          then (case r of c # r' \<Rightarrow> if c = CHR ''_'' then r' else r | [] \<Rightarrow> r)
          else s
      | _ \<Rightarrow> s)"

definition int_base2 :: "string \<Rightarrow> error + int" where
  "int_base2 s =
     (let (neg, u) = split_sign (strip s); w = skip_prefix u
      in case w of
           [] \<Rightarrow> Inl ValueError
         | c # r \<Rightarrow>
             if is_bit c
             then map_sum id (\<lambda>v. if neg then - v else v) (bin_digits (bit_val c) r)
             else Inl ValueError)"

subsection \<open>\<^verbatim>\<open>Counter(votes).most_common(1)[0]\<close>\<close>

text \<open>
  A \<^verbatim>\<open>Counter\<close> is a dict: its items are in first-insertion order. \<^verbatim>\<open>most_common(1)\<close> is
  \<^verbatim>\<open>heapq.nlargest(1, items, key=count)\<close>, which for one item is \<^verbatim>\<open>max\<close> with the empty
  list as default; indexing the empty list raises \<^verbatim>\<open>IndexError\<close>.
\<close>

fun counter_add :: "'a \<Rightarrow> ('a \<times> nat) list \<Rightarrow> ('a \<times> nat) list" where
  "counter_add x [] = [(x, 1)]"
| "counter_add x ((y, n) # rest) =
     (if x = y then (y, n + 1) # rest else (y, n) # counter_add x rest)"

definition Counter :: "'a list \<Rightarrow> ('a \<times> nat) list" where
  "Counter xs = foldl (\<lambda>c x. counter_add x c) [] xs"

definition most_common_1 :: "('a \<times> nat) list \<Rightarrow> ('a \<times> nat) list" where
  "most_common_1 c = (case py_max snd c of Inl e \<Rightarrow> [] | Inr w \<Rightarrow> [w])"

definition item0 :: "'a list \<Rightarrow> error + 'a" where
  "item0 xs = (case xs of [] \<Rightarrow> Inl IndexError | x # rest \<Rightarrow> Inr x)"

subsection \<open>\<^verbatim>\<open>decode_counts\<close>\<close>

text \<open>
  An outcome distribution is a dict from key to count; its items are kept as a list in
  the dict's iteration order. \<^verbatim>\<open>sorted(counts.items(), key=lambda x: -x[1])\<close> is a stable
  sort on the negated count alone, as \<^const>\<open>sort_key\<close> is.
\<close>

type_synonym counts = "(string \<times> int) list"

definition sorted_counts :: "counts \<Rightarrow> counts" where
  "sorted_counts counts = sort_key (\<lambda>x. - snd x) counts"

text \<open>The slice \<^verbatim>\<open>xs[:n]\<close>; a negative \<open>n\<close> counts from the end.\<close>

definition py_prefix :: "int \<Rightarrow> 'a list \<Rightarrow> 'a list" where
  "py_prefix n xs = (if 0 \<le> n then take (nat n) xs else take (length xs - nat (- n)) xs)"

text \<open>The body of the loop, line by line: ratio, channel values, votes, winner.\<close>

definition key_ratio :: "string \<Rightarrow> error + rat" where
  "key_ratio bitstring =
     (case int_base2 bitstring of
        Inl e \<Rightarrow> Inl e
      | Inr val \<Rightarrow>
          let max_val = (2::int) ^ length bitstring - 1
          in Inr (if max_val > 0 then of_int val / of_int max_val else 0.5))"

definition channel_values :: "rat \<Rightarrow> rat \<times> rat \<times> rat" where
  "channel_values ratio =
     (400 + ratio * 300, 262.6 + ratio * (2349.3 - 262.6), MW_MIN + ratio * (MW_MAX - MW_MIN))"

definition channel_votes :: "rat \<times> rat \<times> rat \<Rightarrow> error + char list" where
  "channel_votes v =
     (case v of (wl, freq, mw) \<Rightarrow>
        (case wavelength_to_char wl of
           Inl e \<Rightarrow> Inl e
         | Inr a \<Rightarrow>
             (case frequency_to_char freq of
                Inl e \<Rightarrow> Inl e
              | Inr b \<Rightarrow>
                  (case microwave_to_char mw of
                     Inl e \<Rightarrow> Inl e
                   | Inr c \<Rightarrow> Inr [a, b, c]))))"

definition resolve :: "char list \<Rightarrow> error + char" where
  "resolve votes =
     (case item0 (most_common_1 (Counter votes)) of
        Inl e \<Rightarrow> Inl e
      | Inr winner \<Rightarrow> Inr (if snd winner \<ge> 2 then fst winner else votes ! 0))"

definition decode_key :: "string \<Rightarrow> error + (char \<times> rat \<times> rat \<times> rat)" where
  "decode_key bitstring =
     (case key_ratio bitstring of
        Inl e \<Rightarrow> Inl e
      | Inr ratio \<Rightarrow>
          (case channel_votes (channel_values ratio) of
             Inl e \<Rightarrow> Inl e
           | Inr votes \<Rightarrow>
               (case resolve votes of
                  Inl e \<Rightarrow> Inl e
                | Inr ch \<Rightarrow> Inr (ch, channel_values ratio))))"

type_synonym decoded = "string \<times> rat list \<times> rat list \<times> rat list"

fun decode_loop :: "counts \<Rightarrow> decoded \<Rightarrow> error + decoded" where
  "decode_loop [] acc = Inr acc"
| "decode_loop ((bitstring, cnt) # rest) (chars, wls, freqs, mws) =
     (case decode_key bitstring of
        Inl e \<Rightarrow> Inl e
      | Inr (ch, wl, freq, mw) \<Rightarrow>
          decode_loop rest (chars @ [ch], wls @ [wl], freqs @ [freq], mws @ [mw]))"

definition decode_counts :: "counts \<Rightarrow> int \<Rightarrow> error + decoded" where
  "decode_counts counts n_chars =
     decode_loop (py_prefix n_chars (sorted_counts counts)) ([], [], [], [])"

section \<open>Consensus aggregate\<close>

text \<open>
  \<^verbatim>\<open>majority = max(set(votes), key=votes.count)\<close>. A Python set of strings iterates in
  an order fixed by the string hashes of the process, not by the vote list. The order is
  a parameter: \<open>rank\<close> gives each symbol its place in the iteration, so that every order of
  the distinct votes is some \<open>rank\<close>.
\<close>

definition set_iter :: "(char \<Rightarrow> nat) \<Rightarrow> char list \<Rightarrow> char list" where
  "set_iter rank votes = sort_key rank (remdups votes)"

definition majority_of :: "(char \<Rightarrow> nat) \<Rightarrow> char list \<Rightarrow> error + char" where
  "majority_of rank votes = py_max (count_list votes) (set_iter rank votes)"

text \<open>\<^verbatim>\<open>while len(consensus) < 5: consensus += majority\<close>\<close>

function pad_consensus :: "string \<Rightarrow> char \<Rightarrow> string" where
  "pad_consensus consensus majority =
     (if length consensus < 5 then pad_consensus (consensus @ [majority]) majority else consensus)"
  by pat_completeness auto
termination
  by (relation "measure (\<lambda>(consensus, majority). 5 - length consensus)") auto

declare pad_consensus.simps [simp del]

text \<open>
  Every vote is one symbol of the codebook, so \<^verbatim>\<open>''.join(votes)\<close> is the vote list itself.
  The result is the majority and the new message \<^verbatim>\<open>consensus[:5]\<close>.
\<close>

definition aggregate :: "(char \<Rightarrow> nat) \<Rightarrow> char list \<Rightarrow> error + (char \<times> string)" where
  "aggregate rank votes =
     (case majority_of rank votes of
        Inl e \<Rightarrow> Inl e
      | Inr majority \<Rightarrow> Inr (majority, take 5 (pad_consensus votes majority)))"

text \<open>
  The aggregate as the specification words it: among the most frequent symbols, the one
  seen first in the vote list.
\<close>

definition first_seen_majority :: "char list \<Rightarrow> error + char" where
  "first_seen_majority votes = py_max (count_list votes) (rev (remdups (rev votes)))"

section \<open>Requests to the hardware\<close>

text \<open>
  A circuit is kept as what the oracle receives: which builder made it, the symbols it
  encodes, and the builder's parameter. The builders take the first five symbols
  (\<^verbatim>\<open>n = min(len(msg), 5)\<close>, \<^verbatim>\<open>msg[:n]\<close>); \<^verbatim>\<open>build_consensus\<close> first pads with \<^verbatim>\<open>'AAAAA'\<close>.
  The gates are outside the model: a failure while a circuit is built, transpiled or run
  is an error of the oracle call.
\<close>

datatype circuit =
    Echo string
  | Relay string nat
  | Consensus string
  | Ping string bool

definition build_echo :: "string \<Rightarrow> circuit" where
  "build_echo msg = Echo (take (min (length msg) 5) msg)"

definition build_relay :: "string \<Rightarrow> nat \<Rightarrow> circuit" where
  "build_relay msg leg = Relay (take (min (length msg) 5) msg) leg"

definition build_consensus :: "string \<Rightarrow> circuit" where
  "build_consensus msg = Consensus (take 5 (msg @ ''AAAAA''))"

definition build_ping :: "string \<Rightarrow> bool \<Rightarrow> circuit" where
  "build_ping msg is_pong = Ping (take (min (length msg) 5) msg) is_pong"

datatype backend = Backend_A | Backend_B | Backend_C

type_synonym request = "backend \<times> circuit \<times> nat"

text \<open>The order in which the three futures of the consensus fan-out complete.\<close>

datatype completion_order = ABC | ACB | BAC | BCA | CAB | CBA

fun as_completed :: "completion_order \<Rightarrow> 'a list \<Rightarrow> 'a list" where
  "as_completed ABC futs = [futs ! 0, futs ! 1, futs ! 2]"
| "as_completed ACB futs = [futs ! 0, futs ! 2, futs ! 1]"
| "as_completed BAC futs = [futs ! 1, futs ! 0, futs ! 2]"
| "as_completed BCA futs = [futs ! 1, futs ! 2, futs ! 0]"
| "as_completed CAB futs = [futs ! 2, futs ! 0, futs ! 1]"
| "as_completed CBA futs = [futs ! 2, futs ! 1, futs ! 0]"

section \<open>Loop records and the log file\<close>

text \<open>
  The dict \<^verbatim>\<open>loop_data\<close>; its keys \<^verbatim>\<open>'input'\<close> and \<^verbatim>\<open>'output'\<close> are the fields \<open>input_msg\<close> and
  \<open>output_msg\<close>.
\<close>

record loop_record =
  loop :: nat
  timestamp :: string
  input_msg :: string
  output_msg :: string
  jobs :: "string list"
  job_count :: nat
  loop_time_seconds :: rat
  total_jobs_all_time :: nat

text \<open>
  What \<^verbatim>\<open>json.load\<close> can return: an array, a loop record written earlier, or any other
  JSON value. The file is absent, or exists and cannot be read, or holds a text that is
  JSON (\<open>Some\<close>) or is not (\<open>None\<close>).
\<close>

datatype json = JArray "json list" | JRecord loop_record | JOther

datatype log_file = Absent | Unreadable | Text "json option"

section \<open>The environment and the state of the persistent loop\<close>

text \<open>
  Time is counted in ticks: every blocking call (a hardware call, a sleep) is one tick.
  The environment fixes what happens at each tick: the oracle's answer, whether a
  shutdown signal is delivered during it, the completion order of a fan-out started
  then, the set iteration order, the clock and whether the log file can be written.
\<close>

record env =
  hardware :: "nat \<Rightarrow> request \<Rightarrow> error + (counts \<times> string)"
  simulator :: "nat \<Rightarrow> circuit \<times> nat \<Rightarrow> error + counts"
  signal_at :: "nat \<Rightarrow> bool"
  completion :: "nat \<Rightarrow> completion_order"
  set_rank :: "nat \<Rightarrow> char \<Rightarrow> nat"
  now :: "nat \<Rightarrow> string"
  elapsed :: "nat \<Rightarrow> nat \<Rightarrow> rat"
  writable :: "nat \<Rightarrow> bool"

text \<open>
  The status lines that carry the loop's own data; the separator lines and the
  per-phase progress lines of \<^verbatim>\<open>log\<close> are not kept. Writing a status line is taken to
  succeed.
\<close>

datatype status =
    L_Loop nat string
  | L_Complete nat string string
  | L_Wait10
  | L_Error nat error
  | L_Wait30
  | L_Shutdown
  | L_Stopped nat nat

datatype event = Submit request | Sleep nat | Log status

text \<open>The script's globals, the tick, the events so far and the log file.\<close>

record state =
  running :: bool
  loop_num :: nat
  total_jobs :: nat
  current :: string
  loop_start :: nat
  jobs_this_loop :: "string list"
  response :: string
  votes :: "char list"
  tick :: nat
  trace :: "event list"
  log_json :: log_file

definition log :: "status \<Rightarrow> state \<Rightarrow> state" where
  "log line st = st\<lparr>trace := trace st @ [Log line]\<rparr>"

text \<open>The signal handler \<^verbatim>\<open>shutdown\<close>: one status line, then the flag.\<close>

definition shutdown :: "state \<Rightarrow> state" where
  "shutdown st = (log L_Shutdown st)\<lparr>running := False\<rparr>"

text \<open>
  A blocking call takes one tick. A signal delivered during it runs the handler in the
  main thread; the call then goes on and returns what it returns.
\<close>

definition suspend :: "env \<Rightarrow> state \<Rightarrow> state" where
  "suspend env st =
     (if signal_at env (tick st) then shutdown st else st)\<lparr>tick := tick st + 1\<rparr>"

definition run_hw :: "env \<Rightarrow> backend \<Rightarrow> circuit \<Rightarrow> nat \<Rightarrow> state \<Rightarrow> (error + (counts \<times> string)) \<times> state" where
  "run_hw env backend qc shots st =
     (hardware env (tick st) (backend, qc, shots),
      suspend env (st\<lparr>trace := trace st @ [Submit (backend, qc, shots)]\<rparr>))"

definition sleep :: "env \<Rightarrow> nat \<Rightarrow> state \<Rightarrow> state" where
  "sleep env secs st = suspend env (st\<lparr>trace := trace st @ [Sleep secs]\<rparr>)"

text \<open>
  Statements that can raise return the exception, if any, with the state reached.
  \<open>andthen\<close> is sequencing inside the \<^verbatim>\<open>try\<close> block, \<open>for_each\<close> a \<^verbatim>\<open>for\<close> loop.
\<close>

definition andthen ::
  "('s \<Rightarrow> error option \<times> 's) \<Rightarrow> ('s \<Rightarrow> error option \<times> 's) \<Rightarrow> 's \<Rightarrow> error option \<times> 's" where
  "andthen f g st = (case f st of (None, st') \<Rightarrow> g st' | (Some e, st') \<Rightarrow> (Some e, st'))"

fun for_each :: "('a \<Rightarrow> 's \<Rightarrow> error option \<times> 's) \<Rightarrow> 'a list \<Rightarrow> 's \<Rightarrow> error option \<times> 's" where
  "for_each body [] st = (None, st)"
| "for_each body (x # xs) st =
     (case body x st of (None, st') \<Rightarrow> for_each body xs st' | (Some e, st') \<Rightarrow> (Some e, st'))"

section \<open>One pass of the persistent loop\<close>

text \<open>
  \<^verbatim>\<open>counts, jid = run_hw(backend, qc, shots)\<close>,
  \<^verbatim>\<open>response, wls, freqs, mws = decode_counts(counts)\<close>, \<^verbatim>\<open>jobs_this_loop.append(jid)\<close>.
\<close>

definition hw_decode :: "env \<Rightarrow> backend \<Rightarrow> circuit \<Rightarrow> nat \<Rightarrow> state \<Rightarrow> error option \<times> state" where
  "hw_decode env backend qc shots st =
     (case run_hw env backend qc shots st of
        (Inl e, st') \<Rightarrow> (Some e, st')
      | (Inr (counts, jid), st') \<Rightarrow>
          (case decode_counts counts 5 of
             Inl e \<Rightarrow> (Some e, st')
           | Inr (resp, wls, freqs, mws) \<Rightarrow>
               (None, st'\<lparr>response := resp, jobs_this_loop := jobs_this_loop st' @ [jid]\<rparr>)))"

definition take_response :: "state \<Rightarrow> error option \<times> state" where
  "take_response st = (None, st\<lparr>current := response st\<rparr>)"

definition echo :: "env \<Rightarrow> state \<Rightarrow> error option \<times> state" where
  "echo env st = andthen (hw_decode env Backend_A (build_echo (current st)) 200) take_response st"

definition relay_leg :: "env \<Rightarrow> nat \<times> backend \<Rightarrow> state \<Rightarrow> error option \<times> state" where
  "relay_leg env lb st =
     (case lb of (leg, backend) \<Rightarrow>
        andthen (hw_decode env backend (build_relay (current st) leg) 500) take_response st)"

definition relay :: "env \<Rightarrow> state \<Rightarrow> error option \<times> state" where
  "relay env = for_each (relay_leg env) [(1, Backend_A), (2, Backend_B), (3, Backend_C)]"

text \<open>
  \<^verbatim>\<open>do_vote\<close>: the node's most frequent key, read on the Light channel alone with the
  fixed divisor 31.
\<close>

definition vote_of_counts :: "counts \<Rightarrow> error + char" where
  "vote_of_counts counts =
     (case py_max snd counts of
        Inl e \<Rightarrow> Inl e
      | Inr top_item \<Rightarrow>
          (case int_base2 (fst top_item) of
             Inl e \<Rightarrow> Inl e
           | Inr val \<Rightarrow> wavelength_to_char (400 + (of_int val / 31) * 300)))"

definition do_vote :: "env \<Rightarrow> backend \<Rightarrow> string \<Rightarrow> state \<Rightarrow> (error + (char \<times> string)) \<times> state" where
  "do_vote env backend msg st =
     (case run_hw env backend (build_consensus msg) 1000 st of
        (Inl e, st') \<Rightarrow> (Inl e, st')
      | (Inr (counts, jid), st') \<Rightarrow>
          (case vote_of_counts counts of
             Inl e \<Rightarrow> (Inl e, st')
           | Inr ch \<Rightarrow> (Inr (ch, jid), st')))"

text \<open>
  The three votes are submitted to the pool for backends A, B and C; each future holds
  its result or its exception. The hardware calls are entered in the trace in submission
  order.
\<close>

definition fan_out :: "env \<Rightarrow> state \<Rightarrow> (error + (char \<times> string)) list \<times> state" where
  "fan_out env st =
     (case do_vote env Backend_A (current st) st of (r0, st0) \<Rightarrow>
      case do_vote env Backend_B (current st) st0 of (r1, st1) \<Rightarrow>
      case do_vote env Backend_C (current st) st1 of (r2, st2) \<Rightarrow>
        ([r0, r1, r2], st2))"

text \<open>
  \<^verbatim>\<open>for f in as_completed(futs): char, jid = f.result(); votes.append(char);
  jobs_this_loop.append(jid)\<close>: the first failed future, in completion order, raises.
\<close>

fun fan_in :: "(error + (char \<times> string)) list \<Rightarrow> state \<Rightarrow> error option \<times> state" where
  "fan_in [] st = (None, st)"
| "fan_in (Inl e # rest) st = (Some e, st)"
| "fan_in (Inr (ch, jid) # rest) st =
     fan_in rest (st\<lparr>votes := votes st @ [ch], jobs_this_loop := jobs_this_loop st @ [jid]\<rparr>)"

definition consensus :: "env \<Rightarrow> state \<Rightarrow> error option \<times> state" where
  "consensus env st =
     (case fan_out env (st\<lparr>votes := []\<rparr>) of (futs, st1) \<Rightarrow>
        (case fan_in (as_completed (completion env (tick st)) futs) st1 of
           (Some e, st2) \<Rightarrow> (Some e, st2)
         | (None, st2) \<Rightarrow>
             (case aggregate (set_rank env (tick st)) (votes st2) of
                Inl e \<Rightarrow> (Some e, st2)
              | Inr (majority, msg) \<Rightarrow> (None, st2\<lparr>current := msg\<rparr>))))"

text \<open>
  \<^verbatim>\<open>for rally in range(2)\<close>: \<^verbatim>\<open>is_pong = rally % 2 == 1\<close>,
  \<^verbatim>\<open>backend = [backend_a, backend_b][rally % 2]\<close>.
\<close>

definition rally_step :: "env \<Rightarrow> nat \<Rightarrow> state \<Rightarrow> error option \<times> state" where
  "rally_step env rally st =
     (let is_pong = (rally mod 2 = 1);
          backend = [Backend_A, Backend_B] ! (rally mod 2)
      in andthen (hw_decode env backend (build_ping (current st) is_pong) 500) take_response st)"

definition pingpong :: "env \<Rightarrow> state \<Rightarrow> error option \<times> state" where
  "pingpong env = for_each (rally_step env) [0 ..< 2]"

text \<open>The final echo leaves its output in \<^verbatim>\<open>response\<close>; \<^verbatim>\<open>current\<close> is not assigned here.\<close>

definition final_echo :: "env \<Rightarrow> state \<Rightarrow> error option \<times> state" where
  "final_echo env st = hw_decode env Backend_A (build_echo (current st)) 200 st"

text \<open>
  \<^verbatim>\<open>save_loop_result\<close>: the file is read if it exists; any failure to read or parse it is
  swallowed by the bare \<^verbatim>\<open>except\<close> and leaves \<^verbatim>\<open>results = []\<close>. \<^verbatim>\<open>results.append\<close> raises
  \<^verbatim>\<open>AttributeError\<close> when the file held JSON that is not an array; opening the file
  for writing raises \<^verbatim>\<open>OSError\<close> when it cannot be written.
\<close>

definition load_results :: "log_file \<Rightarrow> json" where
  "load_results f =
     (case f of
        Absent \<Rightarrow> JArray []
      | Unreadable \<Rightarrow> JArray []
      | Text None \<Rightarrow> JArray []
      | Text (Some j) \<Rightarrow> j)"

definition save_loop_result :: "env \<Rightarrow> loop_record \<Rightarrow> state \<Rightarrow> error option \<times> state" where
  "save_loop_result env data st =
     (case load_results (log_json st) of
        JArray results \<Rightarrow>
          if writable env (tick st)
          then (None, st\<lparr>log_json := Text (Some (JArray (results @ [JRecord data])))\<rparr>)
          else (Some OSError, st)
      | JRecord r \<Rightarrow> (Some AttributeError, st)
      | JOther \<Rightarrow> (Some AttributeError, st))"

text \<open>The lines after the final echo: the record, the save, the hand-over, the pause.\<close>

definition loop_data :: "env \<Rightarrow> state \<Rightarrow> loop_record" where
  "loop_data env st =
     \<lparr>loop = loop_num st,
      timestamp = now env (tick st),
      input_msg = current st,
      output_msg = response st,
      jobs = jobs_this_loop st,
      job_count = length (jobs_this_loop st),
      loop_time_seconds = elapsed env (loop_start st) (tick st),
      total_jobs_all_time = total_jobs st\<rparr>"

text \<open>The two waits of the loop: \<^verbatim>\<open>time.sleep(10)\<close> after a pass, \<^verbatim>\<open>time.sleep(30)\<close> after an error.\<close>

definition pause_seconds :: nat where "pause_seconds = 10"
definition backoff_seconds :: nat where "backoff_seconds = 30"

definition finish :: "env \<Rightarrow> state \<Rightarrow> error option \<times> state" where
  "finish env st =
     (let st1 = st\<lparr>total_jobs := total_jobs st + length (jobs_this_loop st)\<rparr>;
          data = loop_data env st1
      in case save_loop_result env data st1 of
           (Some e, st2) \<Rightarrow> (Some e, st2)
         | (None, st2) \<Rightarrow>
             (let st3 = log (L_Complete (loop_num st2) (input_msg data) (response st2))
                          (st2\<lparr>current := response st2\<rparr>)
              in (None, if running st3 then sleep env pause_seconds (log L_Wait10 st3) else st3)))"

text \<open>The five phases, then the lines after them: the body of the \<^verbatim>\<open>try\<close>.\<close>

definition phases :: "env \<Rightarrow> state \<Rightarrow> error option \<times> state" where
  "phases env =
     andthen (echo env) (andthen (relay env) (andthen (consensus env)
       (andthen (pingpong env) (final_echo env))))"

definition try_body :: "env \<Rightarrow> state \<Rightarrow> error option \<times> state" where
  "try_body env = andthen (phases env) (finish env)"

text \<open>The \<^verbatim>\<open>except Exception\<close> handler.\<close>

definition on_error :: "env \<Rightarrow> error \<Rightarrow> state \<Rightarrow> state" where
  "on_error env e st =
     (sleep env backoff_seconds (log L_Wait30 (log (L_Error (loop_num st) e) st)))\<lparr>current := ''NICHE''\<rparr>"

text \<open>The head of an iteration, before the \<^verbatim>\<open>try\<close>: counter, start time, job list, header line.\<close>

definition start_loop :: "state \<Rightarrow> state" where
  "start_loop st =
     log (L_Loop (loop_num st + 1) (current st))
       (st\<lparr>loop_num := loop_num st + 1, loop_start := tick st, jobs_this_loop := []\<rparr>)"

definition iteration :: "env \<Rightarrow> state \<Rightarrow> state" where
  "iteration env st =
     (case try_body env (start_loop st) of
        (None, st2) \<Rightarrow> st2
      | (Some e, st2) \<Rightarrow> on_error env e st2)"

text \<open>
  \<^verbatim>\<open>while running:\<close> with fuel, the number of iterations allowed: \<open>None\<close> is a loop still
  running when the fuel is spent.
\<close>

definition stopped :: "state \<Rightarrow> state" where
  "stopped st = log (L_Stopped (loop_num st) (total_jobs st)) st"

fun main_loop :: "env \<Rightarrow> nat \<Rightarrow> state \<Rightarrow> state option" where
  "main_loop env 0 st = (if running st then None else Some (stopped st))"
| "main_loop env (Suc fuel) st =
     (if running st then main_loop env fuel (iteration env st) else Some (stopped st))"

definition initial :: "log_file \<Rightarrow> state" where
  "initial f =
     \<lparr>running = True, loop_num = 0, total_jobs = 0, current = ''NICHE'', loop_start = 0,
      jobs_this_loop = [], response = [], votes = [], tick = 0, trace = [], log_json = f\<rparr>"


section \<open>The single-run pipeline of the full experiment\<close>

text \<open>
  \<^verbatim>\<open>luxbin_quantum_full_experiment.py\<close> runs one pass on the simulator:
  \<^verbatim>\<open>run_circuit(qc, shots)\<close> returns the counts alone. Its codebook, \<^verbatim>\<open>decode_counts\<close> and
  circuit builders are those above. An exception ends the script. The entries of
  \<^verbatim>\<open>pipeline_log\<close> are kept without their elapsed time.
\<close>

record log_entry =
  phase :: string
  msg_in :: string
  msg_out :: string
  node :: string

record pipeline =
  p_current :: string
  p_response :: string
  p_votes :: "char list"
  p_final :: string
  pipeline_log :: "log_entry list"
  p_tick :: nat
  p_trace :: "(circuit \<times> nat) list"

definition COMPUTERS :: "string list" where
  "COMPUTERS = [''QNode-Alpha'', ''QNode-Beta'', ''QNode-Gamma'']"

definition run_circuit :: "env \<Rightarrow> circuit \<Rightarrow> nat \<Rightarrow> pipeline \<Rightarrow> (error + counts) \<times> pipeline" where
  "run_circuit env qc shots ps =
     (simulator env (p_tick ps) (qc, shots),
      ps\<lparr>p_tick := p_tick ps + 1, p_trace := p_trace ps @ [(qc, shots)]\<rparr>)"

text \<open>
  The body shared by the echo rounds, the relay legs and the rallies: run, decode,
  append the log entry, \<^verbatim>\<open>current = response\<close>.
\<close>

definition sim_step :: "env \<Rightarrow> string \<Rightarrow> string \<Rightarrow> circuit \<Rightarrow> nat \<Rightarrow> pipeline \<Rightarrow> error option \<times> pipeline" where
  "sim_step env ph nd qc shots ps =
     (case run_circuit env qc shots ps of
        (Inl e, ps') \<Rightarrow> (Some e, ps')
      | (Inr counts, ps') \<Rightarrow>
          (case decode_counts counts 5 of
             Inl e \<Rightarrow> (Some e, ps')
           | Inr (resp, wls, freqs, mws) \<Rightarrow>
               (None, ps'\<lparr>p_response := resp,
                   pipeline_log := pipeline_log ps' @
                     [\<lparr>phase = ph, msg_in = p_current ps', msg_out = resp, node = nd\<rparr>],
                   p_current := resp\<rparr>)))"

definition echo_round :: "env \<Rightarrow> nat \<Rightarrow> pipeline \<Rightarrow> error option \<times> pipeline" where
  "echo_round env r ps = sim_step env ''ECHO'' (COMPUTERS ! 0) (build_echo (p_current ps)) 200 ps"

definition echo_loop :: "env \<Rightarrow> pipeline \<Rightarrow> error option \<times> pipeline" where
  "echo_loop env = for_each (echo_round env) [0 ..< 2]"

definition relay_race_leg :: "env \<Rightarrow> nat \<Rightarrow> pipeline \<Rightarrow> error option \<times> pipeline" where
  "relay_race_leg env leg ps =
     sim_step env ''RELAY'' (COMPUTERS ! (leg - 1)) (build_relay (p_current ps) leg) 500 ps"

definition relay_race :: "env \<Rightarrow> pipeline \<Rightarrow> error option \<times> pipeline" where
  "relay_race env = for_each (relay_race_leg env) [1 ..< 4]"

text \<open>
  \<^verbatim>\<open>vote\<close>: only the Light vote of a node enters the aggregate; its Sound and Microwave
  votes are printed.
\<close>

definition vote :: "env \<Rightarrow> string \<Rightarrow> pipeline \<Rightarrow> (error + char) \<times> pipeline" where
  "vote env msg ps =
     (case run_circuit env (build_consensus msg) 1000 ps of
        (Inl e, ps') \<Rightarrow> (Inl e, ps')
      | (Inr counts, ps') \<Rightarrow> (vote_of_counts counts, ps'))"

definition vote_fan_out :: "env \<Rightarrow> pipeline \<Rightarrow> (error + char) list \<times> pipeline" where
  "vote_fan_out env ps =
     (case vote env (p_current ps) ps of (r0, ps0) \<Rightarrow>
      case vote env (p_current ps) ps0 of (r1, ps1) \<Rightarrow>
      case vote env (p_current ps) ps1 of (r2, ps2) \<Rightarrow>
        ([r0, r1, r2], ps2))"

fun vote_fan_in :: "(error + char) list \<Rightarrow> pipeline \<Rightarrow> error option \<times> pipeline" where
  "vote_fan_in [] ps = (None, ps)"
| "vote_fan_in (Inl e # rest) ps = (Some e, ps)"
| "vote_fan_in (Inr ch # rest) ps = vote_fan_in rest (ps\<lparr>p_votes := p_votes ps @ [ch]\<rparr>)"

definition consensus_vote :: "env \<Rightarrow> pipeline \<Rightarrow> error option \<times> pipeline" where
  "consensus_vote env ps =
     (let relay_out = p_current ps in
      case vote_fan_out env (ps\<lparr>p_votes := []\<rparr>) of (futs, ps1) \<Rightarrow>
        (case vote_fan_in (as_completed (completion env (p_tick ps)) futs) ps1 of
           (Some e, ps2) \<Rightarrow> (Some e, ps2)
         | (None, ps2) \<Rightarrow>
             (case aggregate (set_rank env (p_tick ps)) (p_votes ps2) of
                Inl e \<Rightarrow> (Some e, ps2)
              | Inr (majority, msg) \<Rightarrow>
                  (None, ps2\<lparr>p_current := msg,
                      pipeline_log := pipeline_log ps2 @
                        [\<lparr>phase = ''CONSENSUS'', msg_in = relay_out, msg_out = msg,
                          node = ''ALL''\<rparr>]\<rparr>))))"

definition rally :: "env \<Rightarrow> nat \<Rightarrow> pipeline \<Rightarrow> error option \<times> pipeline" where
  "rally env k ps =
     (let is_pong = (k mod 2 = 1);
          nd = COMPUTERS ! (k mod 2)
      in sim_step env ''PINGPONG'' nd (build_ping (p_current ps) is_pong) 500 ps)"

definition ping_pong :: "env \<Rightarrow> pipeline \<Rightarrow> error option \<times> pipeline" where
  "ping_pong env = for_each (rally env) [0 ..< 4]"

text \<open>The final echo: its output goes to \<^verbatim>\<open>final\<close>, \<^verbatim>\<open>current\<close> stays.\<close>

definition echo_final :: "env \<Rightarrow> pipeline \<Rightarrow> error option \<times> pipeline" where
  "echo_final env ps =
     (case run_circuit env (build_echo (p_current ps)) 200 ps of
        (Inl e, ps') \<Rightarrow> (Some e, ps')
      | (Inr counts, ps') \<Rightarrow>
          (case decode_counts counts 5 of
             Inl e \<Rightarrow> (Some e, ps')
           | Inr (final, wls, freqs, mws) \<Rightarrow>
               (None, ps'\<lparr>p_final := final,
                   pipeline_log := pipeline_log ps' @
                     [\<lparr>phase = ''ECHO_FINAL'', msg_in = p_current ps', msg_out = final,
                       node = COMPUTERS ! 0\<rparr>]\<rparr>)))"

definition full_experiment :: "env \<Rightarrow> error option \<times> pipeline" where
  "full_experiment env =
     andthen (echo_loop env) (andthen (relay_race env) (andthen (consensus_vote env)
       (andthen (ping_pong env) (echo_final env))))
     \<lparr>p_current = ''NICHO'', p_response = [], p_votes = [], p_final = [],
      pipeline_log = [], p_tick = 0, p_trace = []\<rparr>"

text \<open>The builder of a submitted circuit, as a phase name for reading a trace.\<close>

datatype call = ECHO | RELAY nat | CONSENSUS | PING | PONG

fun call_of :: "circuit \<Rightarrow> call" where
  "call_of (Echo m) = ECHO"
| "call_of (Relay m leg) = RELAY leg"
| "call_of (Consensus m) = CONSENSUS"
| "call_of (Ping m is_pong) = (if is_pong then PONG else PING)"

fun submissions :: "event list \<Rightarrow> request list" where
  "submissions [] = []"
| "submissions (Submit r # es) = r # submissions es"
| "submissions (e # es) = submissions es"

definition calls :: "event list \<Rightarrow> call list" where
  "calls es = map (\<lambda>r. call_of (fst (snd r))) (submissions es)"

definition kinds :: "pipeline \<Rightarrow> call list" where
  "kinds ps = map (\<lambda>q. call_of (fst q)) (p_trace ps)"

definition phase_names :: "pipeline \<Rightarrow> string list" where
  "phase_names ps = map phase (pipeline_log ps)"

text \<open>The ranking as the specification words it: equal counts in the keys' own order.\<close>

fun lex_ties :: "counts \<Rightarrow> bool" where
  "lex_ties [] = True"
| "lex_ties (x # xs) = ((\<forall>y \<in> set xs. snd y = snd x \<longrightarrow> fst x < fst y) \<and> lex_ties xs)"


section \<open>A worked run\<close>

text \<open>
  An oracle that answers with five keys of five bits, the counts adding up to the shots
  asked for: one distribution for the ping and pong circuits, another for every other
  circuit. Around it an environment with no signal, futures completing in submission
  order and a writable log file; \<open>down_env\<close> is the same with the hardware unavailable,
  \<open>signal_env\<close> the same with a shutdown signal during the fourth hardware call.
\<close>

definition fixed_counts :: "nat \<Rightarrow> counts" where
  "fixed_counts shots =
     [(''00000'', int shots - 100), (''00001'', 40), (''00010'', 30), (''00100'', 20), (''01000'', 10)]"

definition rally_counts :: "nat \<Rightarrow> counts" where
  "rally_counts shots =
     [(''01000'', int shots - 100), (''00100'', 40), (''00010'', 30), (''00001'', 20), (''00000'', 10)]"

definition answer :: "circuit \<Rightarrow> nat \<Rightarrow> counts" where
  "answer qc shots =
     (case qc of
        Echo m \<Rightarrow> fixed_counts shots
      | Relay m leg \<Rightarrow> fixed_counts shots
      | Consensus m \<Rightarrow> fixed_counts shots
      | Ping m is_pong \<Rightarrow> rally_counts shots)"

definition quiet_env :: env where
  "quiet_env =
     \<lparr>hardware = (\<lambda>t r. Inr (answer (fst (snd r)) (snd (snd r)), ''job'')),
      simulator = (\<lambda>t r. Inr (answer (fst r) (snd r))),
      signal_at = (\<lambda>t. False),
      completion = (\<lambda>t. ABC),
      set_rank = (\<lambda>t c. 0),
      now = (\<lambda>t. ''2026-01-01T00:00:00''),
      elapsed = (\<lambda>a b. of_nat (b - a)),
      writable = (\<lambda>t. True)\<rparr>"

definition down_env :: env where
  "down_env = quiet_env\<lparr>hardware := (\<lambda>t r. Inl (OracleError ''unavailable''))\<rparr>"

definition signal_env :: env where
  "signal_env = quiet_env\<lparr>signal_at := (\<lambda>t. t = 3)\<rparr>"

text \<open>An iteration order of a set of symbols in which B comes first.\<close>

definition b_first :: "char \<Rightarrow> nat" where
  "b_first c = (if c = CHR ''B'' then 0 else 1)"


section \<open>Observations on runs\<close>

text \<open>
  What an iteration leaves behind apart from the flag, the clock and the status lines:
  the loop's variables, the log file and the requests submitted.
\<close>

definition core ::
  "state \<Rightarrow> nat \<times> nat \<times> string \<times> string list \<times> string \<times> char list \<times> log_file \<times> request list" where
  "core st =
     (loop_num st, total_jobs st, current st, jobs_this_loop st, response st, votes st,
      log_json st, submissions (trace st))"

text \<open>The same environment without any signal, and a state with the signal's marks removed.\<close>

definition quiet :: "env \<Rightarrow> env" where
  "quiet env = env\<lparr>signal_at := (\<lambda>t. False)\<rparr>"

definition erase :: "state \<Rightarrow> state" where
  "erase st = st\<lparr>running := True, trace := filter (\<lambda>e. e \<noteq> Log L_Shutdown) (trace st)\<rparr>"

definition erase_res :: "error option \<times> state \<Rightarrow> error option \<times> state" where
  "erase_res r = (fst r, erase (snd r))"

text \<open>
  \<open>follows env st st'\<close>: \<open>st'\<close> is reached from \<open>st\<close> by blocking calls only, the flag
  being cleared exactly by a signal at one of their ticks; the loop counter and the
  start time are untouched.
\<close>

definition follows :: "env \<Rightarrow> state \<Rightarrow> state \<Rightarrow> bool" where
  "follows env st st' \<longleftrightarrow>
     tick st \<le> tick st' \<and>
     (running st' \<longleftrightarrow> running st \<and> (\<forall>t. tick st \<le> t \<and> t < tick st' \<longrightarrow> \<not> signal_at env t)) \<and>
     loop_num st' = loop_num st \<and> loop_start st' = loop_start st"


section \<open>Properties of the codec\<close>

lemma min_scan_mem: "min_scan key best xs \<in> set (best # xs)"
  by (induction xs arbitrary: best) (auto split: if_splits)

lemma min_scan_le: "y \<in> set (best # xs) \<Longrightarrow> key (min_scan key best xs) \<le> key y"
proof (induction xs arbitrary: best y)
  case Nil
  then show ?case by simp
next
  case (Cons x xs)
  let ?b = "if key x < key best then x else best"
  have step: "key (min_scan key ?b xs) \<le> key ?b"
    using Cons.IH [of ?b ?b] by simp
  show ?case
  proof (cases "y \<in> set xs")
    case True
    then show ?thesis using Cons.IH [of y ?b] by simp
  next
    case False
    with Cons.prems have "y = best \<or> y = x" by auto
    then have "key ?b \<le> key y" by auto
    with step show ?thesis by simp
  qed
qed

text \<open>
  In a table without repeated values, the lookup of a value of the table finds its own
  symbol: its distance is 0 and every other distance is positive.
\<close>

lemma nearest_char_exact:
  assumes d: "distinct (map snd table)" and m: "(s, v) \<in> set table"
  shows "nearest_char table v = Inr s"
proof -
  from m obtain x xs where t: "table = x # xs" by (cases table) auto
  let ?key = "\<lambda>p::char \<times> rat. \<bar>snd p - v\<bar>"
  let ?r = "min_scan ?key x xs"
  have rin: "?r \<in> set table" unfolding t by (rule min_scan_mem)
  have "?key ?r \<le> ?key (s, v)" using min_scan_le [of "(s, v)" x xs ?key] m t by simp
  then have "snd ?r = v" by simp
  with d rin m have "?r = (s, v)"
    by (metis distinct_map inj_onD snd_conv)
  then show ?thesis by (simp add: nearest_char_def py_min_def t)
qed

lemma distinct_values:
  "distinct (map snd CHAR_WAVELENGTHS)"
  "distinct (map snd CHAR_FREQUENCIES)"
  "distinct (map snd CHAR_MICROWAVES)"
  by (simp_all add: CHAR_WAVELENGTHS_def CHAR_FREQUENCIES_def CHAR_MICROWAVES_def)

lemma codebook_symbols:
  "map fst CHAR_WAVELENGTHS = ''ABCDEFGHIJKLMNOPQRSTUVWXYZ ''"
  "map fst CHAR_FREQUENCIES = ''ABCDEFGHIJKLMNOPQRSTUVWXYZ ''"
  "map fst CHAR_MICROWAVES = ''ABCDEFGHIJKLMNOPQRSTUVWXYZ ''"
  by (simp_all add: CHAR_WAVELENGTHS_def CHAR_FREQUENCIES_def CHAR_MICROWAVES_def)

lemma table_round_trip:
  assumes k: "s \<in> set (map fst table)" and d: "distinct (map snd table)"
  shows "\<exists>v. map_of table s = Some v \<and> nearest_char table v = Inr s"
proof -
  from k obtain v where v: "map_of table s = Some v"
    by (metis domD dom_map_of_conv_image_fst list.set_map)
  then have "(s, v) \<in> set table" by (rule map_of_SomeD)
  with d have "nearest_char table v = Inr s" by (rule nearest_char_exact)
  with v show ?thesis by blast
qed

text \<open>
  C4. Every one of the 27 symbols (A to Z and the space) has a value in each of the three
  tables, and the nearest-value lookup of that value in the same channel returns the
  symbol.
\<close>

theorem codebook_round_trip:
  assumes "s \<in> set ''ABCDEFGHIJKLMNOPQRSTUVWXYZ ''"
  shows "\<exists>wl freq mw.
      map_of CHAR_WAVELENGTHS s = Some wl \<and> wavelength_to_char wl = Inr s \<and>
      map_of CHAR_FREQUENCIES s = Some freq \<and> frequency_to_char freq = Inr s \<and>
      map_of CHAR_MICROWAVES s = Some mw \<and> microwave_to_char mw = Inr s"
proof -
  from assms have l: "s \<in> set (map fst CHAR_WAVELENGTHS)"
    and f: "s \<in> set (map fst CHAR_FREQUENCIES)"
    and m: "s \<in> set (map fst CHAR_MICROWAVES)"
    by (simp_all only: codebook_symbols)
  from table_round_trip [OF l distinct_values(1)]
    table_round_trip [OF f distinct_values(2)]
    table_round_trip [OF m distinct_values(3)]
  show ?thesis
    unfolding wavelength_to_char_def frequency_to_char_def microwave_to_char_def by blast
qed

theorem codebook_round_trip_witness:
  "CHR ''N'' \<in> set ''ABCDEFGHIJKLMNOPQRSTUVWXYZ '' \<and>
   (\<exists>wl freq mw.
      map_of CHAR_WAVELENGTHS (CHR ''N'') = Some wl \<and> wavelength_to_char wl = Inr (CHR ''N'') \<and>
      map_of CHAR_FREQUENCIES (CHR ''N'') = Some freq \<and> frequency_to_char freq = Inr (CHR ''N'') \<and>
      map_of CHAR_MICROWAVES (CHR ''N'') = Some mw \<and> microwave_to_char mw = Inr (CHR ''N''))"
proof -
  have h: "CHR ''N'' \<in> set ''ABCDEFGHIJKLMNOPQRSTUVWXYZ ''" by simp
  from h codebook_round_trip [OF h] show ?thesis by blast
qed

section \<open>Properties of the decoder\<close>

lemma resolve3: "resolve [a, b, c] = Inr (if a = b \<or> a = c then a else if b = c then b else a)"
  by (simp add: resolve_def item0_def most_common_1_def Counter_def py_max_def)

lemma channel_votes_Inr:
  "channel_votes (wl, freq, mw) = Inr vs \<Longrightarrow>
     \<exists>a b c. vs = [a, b, c] \<and> wavelength_to_char wl = Inr a \<and>
       frequency_to_char freq = Inr b \<and> microwave_to_char mw = Inr c"
  by (auto simp: channel_votes_def split: sum.splits)

lemma decode_key_Inr:
  assumes "decode_key k = Inr (ch, wl, freq, mw)"
  shows "\<exists>r vs. key_ratio k = Inr r \<and> channel_values r = (wl, freq, mw) \<and>
           channel_votes (wl, freq, mw) = Inr vs \<and> resolve vs = Inr ch"
  using assms by (auto simp: decode_key_def split: sum.splits)

text \<open>The loop returns, position by position, what \<open>decode_key\<close> returns for the keys.\<close>

lemma decode_loop_Inr:
  "decode_loop ks (chars, wls, freqs, mws) = Inr (chars', wls', freqs', mws') \<Longrightarrow>
     \<exists>ds. map (\<lambda>k. decode_key (fst k)) ks = map Inr ds \<and>
       chars' = chars @ map fst ds \<and> wls' = wls @ map (\<lambda>d. fst (snd d)) ds \<and>
       freqs' = freqs @ map (\<lambda>d. fst (snd (snd d))) ds \<and>
       mws' = mws @ map (\<lambda>d. snd (snd (snd d))) ds"
proof (induction ks arbitrary: chars wls freqs mws)
  case Nil
  then show ?case by simp
next
  case (Cons k ks)
  obtain bitstring cnt where k: "k = (bitstring, cnt)" by (cases k)
  from Cons.prems obtain ch wl freq mw where
    d: "decode_key bitstring = Inr (ch, wl, freq, mw)" and
    rest: "decode_loop ks (chars @ [ch], wls @ [wl], freqs @ [freq], mws @ [mw]) =
             Inr (chars', wls', freqs', mws')"
    by (auto simp: k split: sum.splits)
  from Cons.IH [OF rest] obtain ds where
    ds: "map (\<lambda>k. decode_key (fst k)) ks = map Inr ds"
      "chars' = (chars @ [ch]) @ map fst ds"
      "wls' = (wls @ [wl]) @ map (\<lambda>d. fst (snd d)) ds"
      "freqs' = (freqs @ [freq]) @ map (\<lambda>d. fst (snd (snd d))) ds"
      "mws' = (mws @ [mw]) @ map (\<lambda>d. snd (snd (snd d))) ds"
    by blast
  show ?case
    by (rule exI [of _ "(ch, wl, freq, mw) # ds"]) (simp add: k d ds)
qed

lemma decode_counts_Inr:
  assumes "decode_counts counts n = Inr (chars, wls, freqs, mws)"
  shows "\<exists>ds. map (\<lambda>k. decode_key (fst k)) (py_prefix n (sorted_counts counts)) = map Inr ds \<and>
       chars = map fst ds \<and> wls = map (\<lambda>d. fst (snd d)) ds \<and>
       freqs = map (\<lambda>d. fst (snd (snd d))) ds \<and> mws = map (\<lambda>d. snd (snd (snd d))) ds"
  using decode_loop_Inr [of _ "[]" "[]" "[]" "[]"] assms by (simp add: decode_counts_def)

subsection \<open>The five keys of the worked run\<close>

lemma decode_key_00000:
  "decode_key ''00000'' = Inr (CHR ''A'', 400, 1313 / 5, 4)"
proof -
  have r: "key_ratio ''00000'' = Inr (0)"
    by (simp add: key_ratio_def int_base2_def strip_def py_isspace_def split_sign_def
        skip_prefix_def is_bit_def bit_val_def)
  have v: "channel_values (0) = (400, 1313 / 5, 4)"
    by (simp add: channel_values_def MW_MIN_def MW_MAX_def)
  have l: "wavelength_to_char (400) = Inr (CHR ''A'')"
    by (simp add: wavelength_to_char_def nearest_char_def py_min_def CHAR_WAVELENGTHS_def)
  have s: "frequency_to_char (1313 / 5) = Inr (CHR '' '')"
    by (simp add: frequency_to_char_def nearest_char_def py_min_def CHAR_FREQUENCIES_def)
  have m: "microwave_to_char (4) = Inr (CHR ''A'')"
    by (simp add: microwave_to_char_def nearest_char_def py_min_def CHAR_MICROWAVES_def)
  have cv: "channel_votes (400, 1313 / 5, 4) = Inr [CHR ''A'', CHR '' '', CHR ''A'']"
    by (simp add: channel_votes_def l s m)
  show ?thesis
    by (simp add: decode_key_def r v cv resolve3)
qed

lemma decode_key_00001:
  "decode_key ''00001'' = Inr (CHR ''C'', 12700 / 31, 102273 / 310, 128 / 31)"
proof -
  have r: "key_ratio ''00001'' = Inr (1 / 31)"
    by (simp add: key_ratio_def int_base2_def strip_def py_isspace_def split_sign_def
        skip_prefix_def is_bit_def bit_val_def)
  have v: "channel_values (1 / 31) = (12700 / 31, 102273 / 310, 128 / 31)"
    by (simp add: channel_values_def MW_MIN_def MW_MAX_def)
  have l: "wavelength_to_char (12700 / 31) = Inr (CHR ''C'')"
    by (simp add: wavelength_to_char_def nearest_char_def py_min_def CHAR_WAVELENGTHS_def)
  have s: "frequency_to_char (102273 / 310) = Inr (CHR '' '')"
    by (simp add: frequency_to_char_def nearest_char_def py_min_def CHAR_FREQUENCIES_def)
  have m: "microwave_to_char (128 / 31) = Inr (CHR ''B'')"
    by (simp add: microwave_to_char_def nearest_char_def py_min_def CHAR_MICROWAVES_def)
  have cv: "channel_votes (12700 / 31, 102273 / 310, 128 / 31) = Inr [CHR ''C'', CHR '' '', CHR ''B'']"
    by (simp add: channel_votes_def l s m)
  show ?thesis
    by (simp add: decode_key_def r v cv resolve3)
qed

lemma decode_key_00010:
  "decode_key ''00010'' = Inr (CHR ''F'', 13000 / 31, 12314 / 31, 132 / 31)"
proof -
  have r: "key_ratio ''00010'' = Inr (2 / 31)"
    by (simp add: key_ratio_def int_base2_def strip_def py_isspace_def split_sign_def
        skip_prefix_def is_bit_def bit_val_def)
  have v: "channel_values (2 / 31) = (13000 / 31, 12314 / 31, 132 / 31)"
    by (simp add: channel_values_def MW_MIN_def MW_MAX_def)
  have l: "wavelength_to_char (13000 / 31) = Inr (CHR ''F'')"
    by (simp add: wavelength_to_char_def nearest_char_def py_min_def CHAR_WAVELENGTHS_def)
  have s: "frequency_to_char (12314 / 31) = Inr (CHR ''A'')"
    by (simp add: frequency_to_char_def nearest_char_def py_min_def CHAR_FREQUENCIES_def)
  have m: "microwave_to_char (132 / 31) = Inr (CHR ''C'')"
    by (simp add: microwave_to_char_def nearest_char_def py_min_def CHAR_MICROWAVES_def)
  have cv: "channel_votes (13000 / 31, 12314 / 31, 132 / 31) = Inr [CHR ''F'', CHR ''A'', CHR ''C'']"
    by (simp add: channel_votes_def l s m)
  show ?thesis
    by (simp add: decode_key_def r v cv resolve3)
qed

lemma decode_key_00100:
  "decode_key ''00100'' = Inr (CHR ''K'', 13600 / 31, 82437 / 155, 140 / 31)"
proof -
  have r: "key_ratio ''00100'' = Inr (4 / 31)"
    by (simp add: key_ratio_def int_base2_def strip_def py_isspace_def split_sign_def
        skip_prefix_def is_bit_def bit_val_def)
  have v: "channel_values (4 / 31) = (13600 / 31, 82437 / 155, 140 / 31)"
    by (simp add: channel_values_def MW_MIN_def MW_MAX_def)
  have l: "wavelength_to_char (13600 / 31) = Inr (CHR ''K'')"
    by (simp add: wavelength_to_char_def nearest_char_def py_min_def CHAR_WAVELENGTHS_def)
  have s: "frequency_to_char (82437 / 155) = Inr (CHR ''C'')"
    by (simp add: frequency_to_char_def nearest_char_def py_min_def CHAR_FREQUENCIES_def)
  have m: "microwave_to_char (140 / 31) = Inr (CHR ''D'')"
    by (simp add: microwave_to_char_def nearest_char_def py_min_def CHAR_MICROWAVES_def)
  have cv: "channel_votes (13600 / 31, 82437 / 155, 140 / 31) = Inr [CHR ''K'', CHR ''C'', CHR ''D'']"
    by (simp add: channel_votes_def l s m)
  show ?thesis
    by (simp add: decode_key_def r v cv resolve3)
qed

lemma decode_key_01000:
  "decode_key ''01000'' = Inr (CHR ''U'', 14800 / 31, 124171 / 155, 156 / 31)"
proof -
  have r: "key_ratio ''01000'' = Inr (8 / 31)"
    by (simp add: key_ratio_def int_base2_def strip_def py_isspace_def split_sign_def
        skip_prefix_def is_bit_def bit_val_def)
  have v: "channel_values (8 / 31) = (14800 / 31, 124171 / 155, 156 / 31)"
    by (simp add: channel_values_def MW_MIN_def MW_MAX_def)
  have l: "wavelength_to_char (14800 / 31) = Inr (CHR ''U'')"
    by (simp add: wavelength_to_char_def nearest_char_def py_min_def CHAR_WAVELENGTHS_def)
  have s: "frequency_to_char (124171 / 155) = Inr (CHR ''G'')"
    by (simp add: frequency_to_char_def nearest_char_def py_min_def CHAR_FREQUENCIES_def)
  have m: "microwave_to_char (156 / 31) = Inr (CHR ''H'')"
    by (simp add: microwave_to_char_def nearest_char_def py_min_def CHAR_MICROWAVES_def)
  have cv: "channel_votes (14800 / 31, 124171 / 155, 156 / 31) = Inr [CHR ''U'', CHR ''G'', CHR ''H'']"
    by (simp add: channel_votes_def l s m)
  show ?thesis
    by (simp add: decode_key_def r v cv resolve3)
qed

lemma sorted_fixed_counts:
  "140 \<le> shots \<Longrightarrow> sorted_counts (fixed_counts shots) = fixed_counts shots"
  by (simp add: sorted_counts_def fixed_counts_def)

lemma decode_fixed_counts:
  assumes "140 \<le> shots"
  shows "decode_counts (fixed_counts shots) 5 =
     Inr (''ACFKU'', [400, 12700 / 31, 13000 / 31, 13600 / 31, 14800 / 31],
          [1313 / 5, 102273 / 310, 12314 / 31, 82437 / 155, 124171 / 155],
          [4, 128 / 31, 132 / 31, 140 / 31, 156 / 31])"
  unfolding decode_counts_def sorted_fixed_counts [OF assms]
  by (simp add: fixed_counts_def py_prefix_def decode_key_00000 decode_key_00001
      decode_key_00010 decode_key_00100 decode_key_01000)

text \<open>
  C1. Whatever the distribution and the number of positions asked for, each decoded
  symbol is resolved from the three channel votes of its position (the Light, Sound and
  Microwave lookups of the channel values returned for that position): a symbol that
  occurs in at least two of the three votes is the decoded symbol, and when no symbol
  does, in particular when the three votes differ, the decoded symbol is the Light vote.
\<close>

theorem decoder_channel_majority:
  assumes dec: "decode_counts counts n = Inr (chars, wls, freqs, mws)"
    and i: "i < length chars"
  shows "\<exists>L S M. wavelength_to_char (wls ! i) = Inr L \<and> frequency_to_char (freqs ! i) = Inr S \<and>
           microwave_to_char (mws ! i) = Inr M \<and>
           (\<forall>s. 2 \<le> count_list [L, S, M] s \<longrightarrow> chars ! i = s) \<and>
           ((\<forall>s. count_list [L, S, M] s < 2) \<longrightarrow> chars ! i = L) \<and>
           (L \<noteq> S \<and> L \<noteq> M \<and> S \<noteq> M \<longrightarrow> chars ! i = L)"
proof -
  from decode_counts_Inr [OF dec] obtain ds where
    ks: "map (\<lambda>k. decode_key (fst k)) (py_prefix n (sorted_counts counts)) = map Inr ds" and
    out: "chars = map fst ds" "wls = map (\<lambda>d. fst (snd d)) ds"
      "freqs = map (\<lambda>d. fst (snd (snd d))) ds" "mws = map (\<lambda>d. snd (snd (snd d))) ds"
    by blast
  let ?ks = "py_prefix n (sorted_counts counts)"
  from i out have il: "i < length ds" by simp
  from ks have len: "length ?ks = length ds" by (metis length_map)
  from ks il len have "decode_key (fst (?ks ! i)) = Inr (ds ! i)"
    by (metis nth_map)
  then have dk: "decode_key (fst (?ks ! i)) = Inr (chars ! i, wls ! i, freqs ! i, mws ! i)"
    using il out by simp
  from decode_key_Inr [OF dk] obtain vs where
    v: "channel_votes (wls ! i, freqs ! i, mws ! i) = Inr vs" and r: "resolve vs = Inr (chars ! i)"
    by blast
  from channel_votes_Inr [OF v] obtain a b c where
    abc: "vs = [a, b, c]" "wavelength_to_char (wls ! i) = Inr a"
      "frequency_to_char (freqs ! i) = Inr b" "microwave_to_char (mws ! i) = Inr c"
    by blast
  from r abc have ch: "chars ! i = (if a = b \<or> a = c then a else if b = c then b else a)"
    by (simp add: resolve3)
  show ?thesis
    apply (rule exI [of _ a], rule exI [of _ b], rule exI [of _ c])
    using abc ch by (auto split: if_splits)
qed

text \<open>
  The witness is the key 00001, whose three votes differ (C, space, B): the decoded
  symbol is the Light vote C.
\<close>

theorem decoder_channel_majority_witness:
  "decode_counts [(''00001'', 7)] 5 = Inr (''C'', [12700 / 31], [102273 / 310], [128 / 31]) \<and>
   (\<exists>L S M. wavelength_to_char ([12700 / 31] ! 0) = Inr L \<and>
      frequency_to_char ([102273 / 310] ! 0) = Inr S \<and>
      microwave_to_char ([128 / 31] ! 0) = Inr M \<and>
      (\<forall>s. 2 \<le> count_list [L, S, M] s \<longrightarrow> ''C'' ! 0 = s) \<and>
      ((\<forall>s. count_list [L, S, M] s < 2) \<longrightarrow> ''C'' ! 0 = L) \<and>
      (L \<noteq> S \<and> L \<noteq> M \<and> S \<noteq> M \<longrightarrow> ''C'' ! 0 = L))"
proof -
  have d: "decode_counts [(''00001'', 7)] 5 = Inr (''C'', [12700 / 31], [102273 / 310], [128 / 31])"
    by (simp add: decode_counts_def sorted_counts_def py_prefix_def decode_key_00001)
  have i: "0 < length ''C''" by simp
  from d decoder_channel_majority [OF d i] show ?thesis by blast
qed

lemma key_ratio_empty: "key_ratio [] = Inl ValueError"
  by (simp add: key_ratio_def int_base2_def strip_def split_sign_def skip_prefix_def)

lemma key_ratio_nonempty: "key_ratio k = Inr r \<Longrightarrow> k \<noteq> []"
  using key_ratio_empty by auto

text \<open>
  C6. A key of width zero is the empty string, and \<^verbatim>\<open>int('', 2)\<close> raises before the width
  is looked at: the decoder raises \<^verbatim>\<open>ValueError\<close> on a distribution holding that key, and the
  ratio 0.5 of the source's guard is never produced.
\<close>

theorem zero_width_key_raises: "decode_counts [([], c)] 5 = Inl ValueError"
  by (simp add: decode_counts_def sorted_counts_def py_prefix_def decode_key_def key_ratio_empty)

text \<open>
  C7, as stated: keys of equal count would be ranked in the keys' lexicographic order.
  The distribution that lists 00001 before 00000 with equal counts is ranked, and
  decoded, in that order.
\<close>

theorem ranking_ties_counterexample:
  "sorted_counts [(''00001'', 7), (''00000'', 7)] = [(''00001'', 7), (''00000'', 7)] \<and>
   \<not> lex_ties (sorted_counts [(''00001'', 7), (''00000'', 7)]) \<and>
   decode_counts [(''00001'', 7), (''00000'', 7)] 5 =
     Inr (''CA'', [12700 / 31, 400], [102273 / 310, 1313 / 5], [128 / 31, 4])"
  by (simp add: sorted_counts_def decode_counts_def py_prefix_def decode_key_00001 decode_key_00000)

text \<open>
  C7, amended. The ranking orders the items by count, descending; it is a rearrangement
  of the distribution's items; items of equal count keep the order in which the
  distribution lists them. The first \<open>n\<close> ranked keys are decoded, one position each, so
  that fewer than \<open>n\<close> keys give as many positions as there are keys.
\<close>

theorem ranking_by_count_stable:
  "sorted_wrt (\<lambda>x y. snd x \<ge> snd y) (sorted_counts counts) \<and>
   mset (sorted_counts counts) = mset counts \<and>
   filter (\<lambda>x. snd x = c) (sorted_counts counts) = filter (\<lambda>x. snd x = c) counts \<and>
   (decode_counts counts n = Inr (chars, wls, freqs, mws) \<longrightarrow>
      map (\<lambda>k. decode_key (fst k)) (py_prefix n (sorted_counts counts)) =
        map Inr (zip chars (zip wls (zip freqs mws))) \<and>
      (0 \<le> n \<longrightarrow> length chars = min (nat n) (length counts)))"
proof -
  have "sorted (map (\<lambda>x. - snd x) (sort_key (\<lambda>x. - snd x) counts))"
    by (rule sorted_sort_key)
  then have srt: "sorted_wrt (\<lambda>x y. snd x \<ge> snd y) (sorted_counts counts)"
    by (simp add: sorted_counts_def sorted_map)
  have stab: "filter (\<lambda>x. snd x = c) (sorted_counts counts) = filter (\<lambda>x. snd x = c) counts"
    using sort_key_stable [of "\<lambda>x. - snd x" "- c" counts] by (simp add: sorted_counts_def)
  have dec: "map (\<lambda>k. decode_key (fst k)) (py_prefix n (sorted_counts counts)) =
        map Inr (zip chars (zip wls (zip freqs mws))) \<and>
      (0 \<le> n \<longrightarrow> length chars = min (nat n) (length counts))"
    if d: "decode_counts counts n = Inr (chars, wls, freqs, mws)"
  proof -
    from decode_counts_Inr [OF d] obtain ds where
      ks: "map (\<lambda>k. decode_key (fst k)) (py_prefix n (sorted_counts counts)) = map Inr ds" and
      out: "chars = map fst ds" "wls = map (\<lambda>d. fst (snd d)) ds"
        "freqs = map (\<lambda>d. fst (snd (snd d))) ds" "mws = map (\<lambda>d. snd (snd (snd d))) ds"
      by blast
    have z: "zip chars (zip wls (zip freqs mws)) = ds"
      unfolding out by (induction ds) auto
    from ks have "length (py_prefix n (sorted_counts counts)) = length ds"
      by (metis length_map)
    then have "0 \<le> n \<longrightarrow> length chars = min (nat n) (length counts)"
      by (auto simp: out py_prefix_def sorted_counts_def)
    with ks z show ?thesis by simp
  qed
  from srt stab dec show ?thesis by (simp add: sorted_counts_def)
qed

theorem ranking_by_count_stable_witness:
  "decode_counts [(''00001'', 7), (''00000'', 7)] 5 =
     Inr (''CA'', [12700 / 31, 400], [102273 / 310, 1313 / 5], [128 / 31, 4]) \<and>
   (0::int) \<le> 5 \<and>
   map (\<lambda>k. decode_key (fst k)) (py_prefix 5 (sorted_counts [(''00001'', 7), (''00000'', 7)])) =
     map Inr (zip ''CA'' (zip [12700 / 31, 400] (zip [102273 / 310, 1313 / 5] [128 / 31, 4]))) \<and>
   length ''CA'' = min (nat 5) (length [(''00001'', 7::int), (''00000'', 7)])"
proof -
  have d: "decode_counts [(''00001'', 7), (''00000'', 7)] 5 =
     Inr (''CA'', [12700 / 31, 400], [102273 / 310, 1313 / 5], [128 / 31, 4])"
    by (simp add: sorted_counts_def decode_counts_def py_prefix_def decode_key_00001 decode_key_00000)
  from d ranking_by_count_stable [of "[(''00001'', 7), (''00000'', 7)]" 7 5 "''CA''"
      "[12700 / 31, 400]" "[102273 / 310, 1313 / 5]" "[128 / 31, 4]"]
  show ?thesis by simp
qed


section \<open>Properties of the consensus aggregate\<close>

lemma max_scan_mem: "max_scan key best xs \<in> set (best # xs)"
  by (induction xs arbitrary: best) (auto split: if_splits)

lemma max_scan_ge: "y \<in> set (best # xs) \<Longrightarrow> key y \<le> key (max_scan key best xs)"
proof (induction xs arbitrary: best y)
  case Nil
  then show ?case by simp
next
  case (Cons x xs)
  let ?b = "if key best < key x then x else best"
  have step: "key ?b \<le> key (max_scan key ?b xs)"
    using Cons.IH [of ?b ?b] by simp
  show ?case
  proof (cases "y \<in> set xs")
    case True
    then show ?thesis using Cons.IH [of y ?b] by simp
  next
    case False
    with Cons.prems have "y = best \<or> y = x" by auto
    then have "key y \<le> key ?b" by auto
    with step show ?thesis by simp
  qed
qed

lemma max_scan_first: "\<forall>x \<in> set xs. \<not> key best < key x \<Longrightarrow> max_scan key best xs = best"
  by (induction xs) auto

lemma pad_consensus_eq: "pad_consensus s m = s @ replicate (5 - length s) m"
proof (induction s m rule: pad_consensus.induct)
  case (1 consensus majority)
  show ?case
  proof (cases "length consensus < 5")
    case True
    then have "5 - length consensus = Suc (5 - length (consensus @ [majority]))" by simp
    with True "1.IH" show ?thesis
      by (subst pad_consensus.simps) (simp add: replicate_app_Cons_same)
  next
    case False
    then show ?thesis by (subst pad_consensus.simps) simp
  qed
qed

lemma count_two_symbols: "a \<noteq> b \<Longrightarrow> count_list xs a + count_list xs b \<le> length xs"
  by (induction xs) auto

lemma count_distinct: "distinct xs \<Longrightarrow> a \<in> set xs \<Longrightarrow> count_list xs a = 1"
  by (induction xs) (auto simp: count_list_0_iff)

lemma set_iter_set: "set (set_iter rank vs) = set vs"
  by (simp add: set_iter_def)

text \<open>
  C2, as stated: with three different votes every symbol is equally frequent, and the
  majority the code takes is the first of the set's iteration order. Under an order that
  yields B first, the votes A, B, C give the majority B and the message ABCBB; the first
  seen of the most frequent symbols is A.
\<close>

theorem aggregate_tie_counterexample:
  "aggregate b_first ''ABC'' = Inr (CHR ''B'', ''ABCBB'') \<and>
   first_seen_majority ''ABC'' = Inr (CHR ''A'')"
  by (simp add: aggregate_def majority_of_def set_iter_def py_max_def pad_consensus_eq
      first_seen_majority_def numeral_2_eq_2 b_first_def)

text \<open>
  C2, amended. For three votes and any iteration order of the set, the majority is one of
  the votes and no symbol occurs more often; a symbol that occurs at least twice is the
  majority; when the three votes differ the majority is the first symbol of the set's
  iteration order. The message is the three votes followed by the majority twice, of
  length 5.
\<close>

theorem aggregate_three_votes:
  assumes n: "length vs = 3"
  shows "\<exists>m. aggregate rank vs = Inr (m, vs @ [m, m]) \<and> length (vs @ [m, m]) = 5 \<and>
           m \<in> set vs \<and> (\<forall>s. count_list vs s \<le> count_list vs m) \<and>
           (\<forall>s. 2 \<le> count_list vs s \<longrightarrow> m = s) \<and>
           (distinct vs \<longrightarrow> m = hd (set_iter rank vs))"
proof -
  from n have "set vs \<noteq> {}" by auto
  then have "set_iter rank vs \<noteq> []" using set_iter_set [of rank vs] by auto
  then obtain x xs where it: "set_iter rank vs = x # xs" by (cases "set_iter rank vs") auto
  let ?m = "max_scan (count_list vs) x xs"
  have maj: "majority_of rank vs = Inr ?m" by (simp add: majority_of_def py_max_def it)
  have sv: "set (x # xs) = set vs" using set_iter_set [of rank vs] it by simp
  have "?m \<in> set (x # xs)" by (rule max_scan_mem)
  then have mem: "?m \<in> set vs" unfolding sv .
  have most: "count_list vs s \<le> count_list vs ?m" for s
  proof (cases "s \<in> set vs")
    case True
    then have "s \<in> set (x # xs)" unfolding sv .
    then show ?thesis by (rule max_scan_ge)
  next
    case False
    then show ?thesis by (simp add: count_list_0_iff)
  qed
  have twice: "?m = s" if "2 \<le> count_list vs s" for s
  proof (rule ccontr)
    assume "?m \<noteq> s"
    then have "count_list vs ?m + count_list vs s \<le> length vs" by (rule count_two_symbols)
    with most [of s] that n show False by simp
  qed
  have tie: "?m = hd (set_iter rank vs)" if d: "distinct vs"
  proof -
    have "\<forall>y \<in> set xs. \<not> count_list vs x < count_list vs y"
    proof
      fix y assume "y \<in> set xs"
      then have "y \<in> set vs" using sv by auto
      moreover have "x \<in> set vs" using sv by auto
      ultimately show "\<not> count_list vs x < count_list vs y"
        using d by (simp add: count_distinct)
    qed
    then have "?m = x" by (rule max_scan_first)
    then show ?thesis by (simp add: it)
  qed
  have msg: "take 5 (pad_consensus vs ?m) = vs @ [?m, ?m]"
    using n by (simp add: pad_consensus_eq numeral_2_eq_2)
  have "aggregate rank vs = Inr (?m, vs @ [?m, ?m])"
    by (simp add: aggregate_def maj msg)
  with n mem most twice tie show ?thesis by auto
qed

text \<open>The votes A, A, B: the majority is A and the message AABAA.\<close>

theorem aggregate_three_votes_witness:
  "length ''AAB'' = 3 \<and> aggregate (\<lambda>c. 0) ''AAB'' = Inr (CHR ''A'', ''AABAA'')"
proof -
  have n: "length ''AAB'' = 3" by simp
  have two: "2 \<le> count_list ''AAB'' (CHR ''A'')" by simp
  from aggregate_three_votes [OF n, of "\<lambda>c. 0"] obtain m where
    a: "aggregate (\<lambda>c. 0) ''AAB'' = Inr (m, ''AAB'' @ [m, m])" and
    t: "\<forall>s. 2 \<le> count_list ''AAB'' s \<longrightarrow> m = s"
    by blast
  from t two have "m = CHR ''A''" by blast
  with a n show ?thesis by simp
qed


section \<open>Properties of the persistent loop\<close>

subsection \<open>Sequencing\<close>

lemma andthen_None:
  "andthen f g st = (None, st'') \<Longrightarrow> \<exists>st'. f st = (None, st') \<and> g st' = (None, st'')"
  by (auto simp: andthen_def split: prod.splits option.splits)

subsection \<open>The flag, the clock and the counters along a run\<close>

lemma follows_refl: "follows env st st"
  by (auto simp: follows_def)

lemma follows_trans: "follows env a b \<Longrightarrow> follows env b c \<Longrightarrow> follows env a c"
  unfolding follows_def
  by (metis (no_types, opaque_lifting) le_trans not_le_imp_less order.strict_trans2)

lemma follows_log: "follows env st (log line st)"
  by (auto simp: follows_def log_def)

lemma follows_suspend: "follows env st (suspend env st)"
  by (auto simp: follows_def suspend_def shutdown_def log_def less_Suc_eq_le)

lemma follows_sleep: "follows env st (sleep env secs st)"
  using follows_suspend [of env "st\<lparr>trace := trace st @ [Sleep secs]\<rparr>"]
  by (simp add: sleep_def follows_def)

lemma follows_run_hw: "follows env st (snd (run_hw env backend qc shots st))"
  using follows_suspend [of env "st\<lparr>trace := trace st @ [Submit (backend, qc, shots)]\<rparr>"]
  by (simp add: run_hw_def follows_def)

lemma follows_hw_decode: "follows env st (snd (hw_decode env backend qc shots st))"
  using follows_run_hw [of env st backend qc shots]
  by (auto simp: hw_decode_def follows_def split: prod.splits sum.splits)

lemma follows_andthen:
  assumes "follows env st (snd (f st))" and "\<And>s. follows env s (snd (g s))"
  shows "follows env st (snd (andthen f g st))"
proof (cases "f st")
  case (Pair r st')
  show ?thesis
  proof (cases r)
    case None
    with Pair assms(1) assms(2) [of st'] show ?thesis
      by (auto simp: andthen_def intro: follows_trans)
  next
    case (Some e)
    with Pair assms(1) show ?thesis by (simp add: andthen_def)
  qed
qed

lemma follows_for_each:
  assumes "\<And>x s. follows env s (snd (body x s))"
  shows "follows env st (snd (for_each body xs st))"
proof (induction xs arbitrary: st)
  case Nil
  show ?case by (simp add: follows_refl)
next
  case (Cons x xs)
  obtain r st' where b: "body x st = (r, st')" by (cases "body x st")
  from assms [of st x] b have f: "follows env st st'" by simp
  show ?case
  proof (cases r)
    case None
    with b f Cons.IH [of st'] show ?thesis by (auto intro: follows_trans)
  next
    case (Some e)
    with b f show ?thesis by simp
  qed
qed

lemma follows_take_response: "follows env st (snd (take_response st))"
  by (auto simp: take_response_def follows_def)

lemma follows_echo: "follows env st (snd (echo env st))"
  unfolding echo_def
  by (rule follows_andthen) (rule follows_hw_decode, rule follows_take_response)

lemma follows_relay_leg: "follows env st (snd (relay_leg env lb st))"
  unfolding relay_leg_def
  by (cases lb) (simp, rule follows_andthen, rule follows_hw_decode, rule follows_take_response)

lemma follows_relay: "follows env st (snd (relay env st))"
  unfolding relay_def by (rule follows_for_each) (rule follows_relay_leg)

lemma follows_rally_step: "follows env st (snd (rally_step env k st))"
  unfolding rally_step_def Let_def
  by (rule follows_andthen) (rule follows_hw_decode, rule follows_take_response)

lemma follows_pingpong: "follows env st (snd (pingpong env st))"
  unfolding pingpong_def by (rule follows_for_each) (rule follows_rally_step)

lemma follows_final_echo: "follows env st (snd (final_echo env st))"
  unfolding final_echo_def by (rule follows_hw_decode)

lemma follows_do_vote: "follows env st (snd (do_vote env backend msg st))"
  using follows_run_hw [of env st backend "build_consensus msg" 1000]
  by (auto simp: do_vote_def split: prod.splits sum.splits)

lemma follows_fan_out: "follows env st (snd (fan_out env st))"
proof -
  obtain r0 st0 where a: "do_vote env Backend_A (current st) st = (r0, st0)"
    by (cases "do_vote env Backend_A (current st) st")
  obtain r1 st1 where b: "do_vote env Backend_B (current st) st0 = (r1, st1)"
    by (cases "do_vote env Backend_B (current st) st0")
  obtain r2 st2 where c: "do_vote env Backend_C (current st) st1 = (r2, st2)"
    by (cases "do_vote env Backend_C (current st) st1")
  from follows_do_vote [of env st Backend_A "current st"] a have "follows env st st0" by simp
  moreover from follows_do_vote [of env st0 Backend_B "current st"] b have "follows env st0 st1" by simp
  moreover from follows_do_vote [of env st1 Backend_C "current st"] c have "follows env st1 st2" by simp
  ultimately have "follows env st st2" by (blast intro: follows_trans)
  with a b c show ?thesis by (simp add: fan_out_def)
qed

lemma follows_fan_in: "follows env st (snd (fan_in futs st))"
proof (induction futs st rule: fan_in.induct)
  case (1 st)
  show ?case by (simp add: follows_refl)
next
  case (2 e rest st)
  show ?case by (simp add: follows_refl)
next
  case (3 ch jid rest st)
  then show ?case by (simp add: follows_def)
qed

lemma follows_consensus: "follows env st (snd (consensus env st))"
proof -
  obtain futs st1 where a: "fan_out env (st\<lparr>votes := []\<rparr>) = (futs, st1)"
    by (cases "fan_out env (st\<lparr>votes := []\<rparr>)")
  from follows_fan_out [of env "st\<lparr>votes := []\<rparr>"] a have f1: "follows env st st1"
    by (simp add: follows_def)
  obtain r st2 where b: "fan_in (as_completed (completion env (tick st)) futs) st1 = (r, st2)"
    by (cases "fan_in (as_completed (completion env (tick st)) futs) st1")
  from follows_fan_in [of env st1 "as_completed (completion env (tick st)) futs"] b
  have "follows env st1 st2" by simp
  with f1 have f2: "follows env st st2" by (rule follows_trans)
  then have "follows env st (st2\<lparr>current := m\<rparr>)" for m by (simp add: follows_def)
  with a b f2 show ?thesis
    by (auto simp: consensus_def split: option.splits sum.splits prod.splits)
qed

lemma follows_phases: "follows env st (snd (phases env st))"
  unfolding phases_def
  by (intro follows_andthen follows_echo follows_relay follows_consensus follows_pingpong
      follows_final_echo)

lemma follows_save: "follows env st (snd (save_loop_result env data st))"
  by (auto simp: save_loop_result_def follows_def split: json.splits)

lemma follows_finish: "follows env st (snd (finish env st))"
proof -
  let ?st1 = "st\<lparr>total_jobs := total_jobs st + length (jobs_this_loop st)\<rparr>"
  obtain r st2 where s: "save_loop_result env (loop_data env ?st1) ?st1 = (r, st2)"
    by (cases "save_loop_result env (loop_data env ?st1) ?st1")
  from follows_save [of env ?st1 "loop_data env ?st1"] s have f: "follows env st st2"
    by (simp add: follows_def)
  let ?st3 = "log (L_Complete (loop_num st2) (input_msg (loop_data env ?st1)) (response st2))
                (st2\<lparr>current := response st2\<rparr>)"
  from f have f3: "follows env st ?st3" by (simp add: follows_def log_def)
  have "follows env ?st3 (sleep env pause_seconds (log L_Wait10 ?st3))"
    by (rule follows_trans [OF follows_log follows_sleep])
  with f3 have f4: "follows env st (sleep env pause_seconds (log L_Wait10 ?st3))"
    by (rule follows_trans)
  from s f f3 f4 show ?thesis
    by (cases r) (simp_all add: finish_def Let_def)
qed

lemma follows_try_body: "follows env st (snd (try_body env st))"
  unfolding try_body_def by (intro follows_andthen follows_phases follows_finish)

lemma follows_on_error: "follows env st (on_error env e st)"
proof -
  have "follows env st (sleep env backoff_seconds (log L_Wait30 (log (L_Error (loop_num st) e) st)))"
    by (intro follows_trans [OF follows_log follows_trans [OF follows_log follows_sleep]])
  then show ?thesis by (simp add: on_error_def follows_def)
qed

lemma follows_start_loop:
  "tick (start_loop st) = tick st \<and> running (start_loop st) = running st \<and>
   loop_num (start_loop st) = loop_num st + 1 \<and> current (start_loop st) = current st"
  by (simp add: start_loop_def log_def)

text \<open>
  After an iteration the flag is set exactly when it was set before and no signal was
  delivered during a tick of the iteration.
\<close>

lemma iteration_running:
  "tick st \<le> tick (iteration env st) \<and>
   (running (iteration env st) \<longleftrightarrow>
      running st \<and> (\<forall>t. tick st \<le> t \<and> t < tick (iteration env st) \<longrightarrow> \<not> signal_at env t)) \<and>
   loop_num (iteration env st) = loop_num st + 1"
proof -
  obtain r st2 where b: "try_body env (start_loop st) = (r, st2)"
    by (cases "try_body env (start_loop st)")
  from follows_try_body [of env "start_loop st"] b have f: "follows env (start_loop st) st2"
    by simp
  have "follows env (start_loop st) (iteration env st)"
  proof (cases r)
    case None
    with b f show ?thesis by (simp add: iteration_def)
  next
    case (Some e)
    with b have "iteration env st = on_error env e st2" by (simp add: iteration_def)
    with f follows_on_error [of env st2 e] show ?thesis by (auto intro: follows_trans)
  qed
  then show ?thesis using follows_start_loop [of st] by (simp add: follows_def)
qed


subsection \<open>The log file\<close>

lemma save_appends:
  assumes "log_json st = Text (Some (JArray rs))" and "writable env (tick st)"
  shows "save_loop_result env data st =
           (None, st\<lparr>log_json := Text (Some (JArray (rs @ [JRecord data])))\<rparr>)"
  using assms by (simp add: save_loop_result_def load_results_def)

text \<open>
  C10. When the log file exists and cannot be read, or its text is not JSON, and the file
  can be written, \<^verbatim>\<open>save_loop_result\<close> does not raise: it leaves a file that holds an array
  with the new record alone.
\<close>

theorem save_discards_unreadable_history:
  assumes "log_json st = Unreadable \<or> log_json st = Text None" and "writable env (tick st)"
  shows "save_loop_result env data st =
           (None, st\<lparr>log_json := Text (Some (JArray [JRecord data]))\<rparr>)"
  using assms by (auto simp: save_loop_result_def load_results_def)

theorem save_discards_unreadable_history_witness:
  "(log_json (initial (Text None)) = Unreadable \<or> log_json (initial (Text None)) = Text None) \<and>
   writable quiet_env (tick (initial (Text None))) \<and>
   save_loop_result quiet_env (loop_data quiet_env (initial (Text None))) (initial (Text None)) =
     (None, (initial (Text None))
        \<lparr>log_json := Text (Some (JArray [JRecord (loop_data quiet_env (initial (Text None)))]))\<rparr>)"
proof -
  have f: "log_json (initial (Text None)) = Unreadable \<or> log_json (initial (Text None)) = Text None"
    by (simp add: initial_def)
  have w: "writable quiet_env (tick (initial (Text None)))"
    by (simp add: quiet_env_def)
  from f w save_discards_unreadable_history [OF f w] show ?thesis by blast
qed

subsection \<open>The error handler\<close>

lemma submissions_append: "submissions (es @ es') = submissions es @ submissions es'"
  by (induction es rule: submissions.induct) simp_all

lemma run_hw_trace:
  "trace (snd (run_hw env backend qc shots st)) =
     trace st @ Submit (backend, qc, shots) # (if signal_at env (tick st) then [Log L_Shutdown] else [])"
  by (simp add: run_hw_def suspend_def shutdown_def log_def)

lemma hw_decode_trace:
  "trace (snd (hw_decode env backend qc shots st)) =
     trace st @ Submit (backend, qc, shots) # (if signal_at env (tick st) then [Log L_Shutdown] else [])"
  using run_hw_trace [of env backend qc shots st]
  by (auto simp: hw_decode_def split: prod.splits sum.splits)

lemma take_response_trace: "trace (snd (take_response s)) = trace s"
  by (simp add: take_response_def)

lemma andthen_trace:
  assumes "\<And>s. trace (snd (g s)) = trace s"
  shows "trace (snd (andthen f g st)) = trace (snd (f st))"
  using assms by (auto simp: andthen_def split: prod.splits option.splits)

lemma echo_trace:
  "trace (snd (echo env st)) =
     trace st @ Submit (Backend_A, build_echo (current st), 200) #
       (if signal_at env (tick st) then [Log L_Shutdown] else [])"
  unfolding echo_def by (simp only: andthen_trace [OF take_response_trace] hw_decode_trace)

lemma echo_submits:
  "\<exists>r st'. echo env st = (r, st') \<and>
     submissions (trace st') = submissions (trace st) @ [(Backend_A, build_echo (current st), 200)]"
proof -
  obtain r st' where e: "echo env st = (r, st')" by (cases "echo env st")
  with echo_trace [of env st] have
    "trace st' = trace st @ Submit (Backend_A, build_echo (current st), 200) #
       (if signal_at env (tick st) then [Log L_Shutdown] else [])"
    by simp
  then have "submissions (trace st') =
      submissions (trace st) @ [(Backend_A, build_echo (current st), 200)]"
    by (simp add: submissions_append)
  with e show ?thesis by blast
qed

text \<open>
  C5. When the body of the \<^verbatim>\<open>try\<close> raises in an iteration, the iteration ends with the
  failure logged, a wait of the backoff interval, which is longer than the pause after a
  successful pass, and \<^verbatim>\<open>current\<close> reset to NICHE: the next iteration starts from NICHE
  and its echo submits NICHE, whatever the failed iteration had computed.
\<close>

theorem reset_on_error:
  assumes "try_body env (start_loop st) = (Some e, st2)"
  shows "current (iteration env st) = ''NICHE'' \<and>
         current (start_loop (iteration env st)) = ''NICHE'' \<and>
         (\<exists>r st'. echo env (start_loop (iteration env st)) = (r, st') \<and>
            submissions (trace st') =
              submissions (trace (iteration env st)) @ [(Backend_A, Echo ''NICHE'', 200)]) \<and>
         trace (iteration env st) =
           trace st2 @ [Log (L_Error (loop_num st + 1) e), Log L_Wait30, Sleep backoff_seconds] @
             (if signal_at env (tick st2) then [Log L_Shutdown] else []) \<and>
         pause_seconds < backoff_seconds"
proof -
  let ?s = "iteration env st"
  have it: "?s = on_error env e st2" using assms by (simp add: iteration_def)
  have cur: "current ?s = ''NICHE''" by (simp add: it on_error_def)
  then have cur': "current (start_loop ?s) = ''NICHE''" by (simp add: start_loop_def log_def)
  from follows_try_body [of env "start_loop st"] assms
  have "loop_num st2 = loop_num (start_loop st)" by (simp add: follows_def)
  then have ln: "loop_num st2 = loop_num st + 1" by (simp add: start_loop_def log_def)
  have tr: "trace ?s =
      trace st2 @ [Log (L_Error (loop_num st + 1) e), Log L_Wait30, Sleep backoff_seconds] @
        (if signal_at env (tick st2) then [Log L_Shutdown] else [])"
    by (simp add: it on_error_def sleep_def suspend_def shutdown_def log_def ln)
  from echo_submits [of env "start_loop ?s"] obtain r st' where
    e: "echo env (start_loop ?s) = (r, st')" and
    sub: "submissions (trace st') =
      submissions (trace (start_loop ?s)) @ [(Backend_A, build_echo (current (start_loop ?s)), 200)]"
    by blast
  have "submissions (trace (start_loop ?s)) = submissions (trace ?s)"
    by (simp add: start_loop_def log_def submissions_append)
  with sub cur' have "submissions (trace st') =
      submissions (trace ?s) @ [(Backend_A, Echo ''NICHE'', 200)]"
    by (simp add: build_echo_def)
  with e have nxt: "\<exists>r st'. echo env (start_loop ?s) = (r, st') \<and>
      submissions (trace st') = submissions (trace ?s) @ [(Backend_A, Echo ''NICHE'', 200)]"
    by blast
  have "pause_seconds < backoff_seconds" by (simp add: pause_seconds_def backoff_seconds_def)
  with cur cur' nxt tr show ?thesis by blast
qed

text \<open>The witness: the hardware is unavailable and the first echo raises.\<close>

lemma down_try_body:
  "try_body down_env (start_loop (initial Absent)) =
     (Some (OracleError ''unavailable''),
      (start_loop (initial Absent))
        \<lparr>tick := 1,
         trace := trace (start_loop (initial Absent)) @ [Submit (Backend_A, Echo ''NICHE'', 200)]\<rparr>)"
  by (simp add: try_body_def phases_def andthen_def echo_def hw_decode_def run_hw_def suspend_def
      down_env_def quiet_env_def build_echo_def start_loop_def initial_def log_def)

theorem reset_on_error_witness:
  "try_body down_env (start_loop (initial Absent)) =
     (Some (OracleError ''unavailable''),
      (start_loop (initial Absent))
        \<lparr>tick := 1,
         trace := trace (start_loop (initial Absent)) @ [Submit (Backend_A, Echo ''NICHE'', 200)]\<rparr>) \<and>
   current (iteration down_env (initial Absent)) = ''NICHE'' \<and>
   trace (iteration down_env (initial Absent)) =
     [Log (L_Loop 1 ''NICHE''), Submit (Backend_A, Echo ''NICHE'', 200),
      Log (L_Error 1 (OracleError ''unavailable'')), Log L_Wait30, Sleep 30]"
proof -
  have z: "loop_num (initial Absent) = 0" "\<not> signal_at down_env 1"
    by (simp_all add: initial_def down_env_def quiet_env_def)
  from reset_on_error [OF down_try_body] z down_try_body show ?thesis
    by (simp add: start_loop_def initial_def log_def backoff_seconds_def)
qed


subsection \<open>The worked run\<close>

lemma sorted_rally_counts:
  "140 \<le> shots \<Longrightarrow> sorted_counts (rally_counts shots) = rally_counts shots"
  by (simp add: sorted_counts_def rally_counts_def)

lemma decode_rally_counts:
  assumes "140 \<le> shots"
  shows "decode_counts (rally_counts shots) 5 =
     Inr (''UKFCA'', [14800 / 31, 13600 / 31, 13000 / 31, 12700 / 31, 400],
          [124171 / 155, 82437 / 155, 12314 / 31, 102273 / 310, 1313 / 5],
          [156 / 31, 140 / 31, 132 / 31, 128 / 31, 4])"
  unfolding decode_counts_def sorted_rally_counts [OF assms]
  by (simp add: rally_counts_def py_prefix_def decode_key_00000 decode_key_00001
      decode_key_00010 decode_key_00100 decode_key_01000)

lemma wavelength_400: "wavelength_to_char 400 = Inr (CHR ''A'')"
  by (simp add: wavelength_to_char_def nearest_char_def py_min_def CHAR_WAVELENGTHS_def)

lemma vote_fixed_counts: "140 \<le> shots \<Longrightarrow> vote_of_counts (fixed_counts shots) = Inr (CHR ''A'')"
  by (simp add: vote_of_counts_def fixed_counts_def py_max_def int_base2_def strip_def
      py_isspace_def split_sign_def skip_prefix_def is_bit_def bit_val_def wavelength_400)

lemma aggregate_AAA: "aggregate (\<lambda>c. 0) ''AAA'' = Inr (CHR ''A'', ''AAAAA'')"
  by (simp add: aggregate_def majority_of_def set_iter_def py_max_def pad_consensus_eq
      numeral_2_eq_2)

lemma upt_2: "[0 ..< 2] = [0, 1]"
  by (simp add: upt_rec)

lemmas loop_defs =
  iteration_def start_loop_def try_body_def phases_def andthen_def echo_def relay_def
  relay_leg_def consensus_def fan_out_def do_vote_def pingpong_def rally_step_def
  final_echo_def finish_def loop_data_def save_loop_result_def load_results_def hw_decode_def
  run_hw_def suspend_def sleep_def log_def take_response_def build_echo_def build_relay_def
  build_consensus_def build_ping_def pause_seconds_def

lemma quiet_iteration:
  "iteration quiet_env (initial Absent) =
    \<lparr>running = True, loop_num = 1, total_jobs = 10, current = ''ACFKU'', loop_start = 0,
     jobs_this_loop =
       [''job'', ''job'', ''job'', ''job'', ''job'', ''job'', ''job'', ''job'', ''job'', ''job''],
     response = ''ACFKU'', votes = ''AAA'', tick = 11,
     trace =
       [Log (L_Loop 1 ''NICHE''), Submit (Backend_A, Echo ''NICHE'', 200),
        Submit (Backend_A, Relay ''ACFKU'' 1, 500),
        Submit (Backend_B, Relay ''ACFKU'' 2, 500),
        Submit (Backend_C, Relay ''ACFKU'' 3, 500),
        Submit (Backend_A, Consensus ''ACFKU'', 1000),
        Submit (Backend_B, Consensus ''ACFKU'', 1000),
        Submit (Backend_C, Consensus ''ACFKU'', 1000),
        Submit (Backend_A, Ping ''AAAAA'' False, 500),
        Submit (Backend_B, Ping ''UKFCA'' True, 500),
        Submit (Backend_A, Echo ''UKFCA'', 200),
        Log (L_Complete 1 ''UKFCA'' ''ACFKU''), Log L_Wait10, Sleep 10],
     log_json =
       Text (Some (JArray
         [JRecord
           \<lparr>loop = 1, timestamp = ''2026-01-01T00:00:00'', input_msg = ''UKFCA'',
            output_msg = ''ACFKU'',
            jobs =
              [''job'', ''job'', ''job'', ''job'', ''job'', ''job'', ''job'', ''job'', ''job'',
               ''job''],
            job_count = 10, loop_time_seconds = 10, total_jobs_all_time = 10\<rparr>]))\<rparr>"
  by (simp add: loop_defs initial_def quiet_env_def answer_def decode_fixed_counts
      decode_rally_counts vote_fixed_counts aggregate_AAA upt_2)


lemma quiet_phases:
  "phases quiet_env (initial Absent) =
    (None,
     \<lparr>running = True, loop_num = 0, total_jobs = 0, current = ''UKFCA'', loop_start = 0,
      jobs_this_loop =
        [''job'', ''job'', ''job'', ''job'', ''job'', ''job'', ''job'', ''job'', ''job'', ''job''],
      response = ''ACFKU'', votes = ''AAA'', tick = 10,
      trace =
        [Submit (Backend_A, Echo ''NICHE'', 200),
         Submit (Backend_A, Relay ''ACFKU'' 1, 500),
         Submit (Backend_B, Relay ''ACFKU'' 2, 500),
         Submit (Backend_C, Relay ''ACFKU'' 3, 500),
         Submit (Backend_A, Consensus ''ACFKU'', 1000),
         Submit (Backend_B, Consensus ''ACFKU'', 1000),
         Submit (Backend_C, Consensus ''ACFKU'', 1000),
         Submit (Backend_A, Ping ''AAAAA'' False, 500),
         Submit (Backend_B, Ping ''UKFCA'' True, 500),
         Submit (Backend_A, Echo ''UKFCA'', 200)],
      log_json = Absent\<rparr>)"
  by (simp add: loop_defs initial_def quiet_env_def answer_def decode_fixed_counts
      decode_rally_counts vote_fixed_counts aggregate_AAA upt_2)

lemma upt_4: "[0 ..< 4] = [0, 1, 2, 3]"
  by (simp add: upt_rec)

lemma upt_1_4: "[Suc 0 ..< 4] = [1, 2, 3]"
  by (simp add: upt_rec)

lemmas pipeline_defs =
  full_experiment_def andthen_def echo_loop_def echo_round_def relay_race_def relay_race_leg_def
  consensus_vote_def vote_fan_out_def vote_def ping_pong_def rally_def echo_final_def
  sim_step_def run_circuit_def COMPUTERS_def build_echo_def build_relay_def build_consensus_def
  build_ping_def

lemma quiet_experiment:
  "full_experiment quiet_env =
    (None,
     \<lparr>p_current = ''UKFCA'', p_response = ''UKFCA'', p_votes = ''AAA'', p_final = ''ACFKU'',
      pipeline_log =
        [\<lparr>phase = ''ECHO'', msg_in = ''NICHO'', msg_out = ''ACFKU'', node = ''QNode-Alpha''\<rparr>,
         \<lparr>phase = ''ECHO'', msg_in = ''ACFKU'', msg_out = ''ACFKU'', node = ''QNode-Alpha''\<rparr>,
         \<lparr>phase = ''RELAY'', msg_in = ''ACFKU'', msg_out = ''ACFKU'', node = ''QNode-Alpha''\<rparr>,
         \<lparr>phase = ''RELAY'', msg_in = ''ACFKU'', msg_out = ''ACFKU'', node = ''QNode-Beta''\<rparr>,
         \<lparr>phase = ''RELAY'', msg_in = ''ACFKU'', msg_out = ''ACFKU'', node = ''QNode-Gamma''\<rparr>,
         \<lparr>phase = ''CONSENSUS'', msg_in = ''ACFKU'', msg_out = ''AAAAA'', node = ''ALL''\<rparr>,
         \<lparr>phase = ''PINGPONG'', msg_in = ''AAAAA'', msg_out = ''UKFCA'', node = ''QNode-Alpha''\<rparr>,
         \<lparr>phase = ''PINGPONG'', msg_in = ''UKFCA'', msg_out = ''UKFCA'', node = ''QNode-Beta''\<rparr>,
         \<lparr>phase = ''PINGPONG'', msg_in = ''UKFCA'', msg_out = ''UKFCA'', node = ''QNode-Alpha''\<rparr>,
         \<lparr>phase = ''PINGPONG'', msg_in = ''UKFCA'', msg_out = ''UKFCA'', node = ''QNode-Beta''\<rparr>,
         \<lparr>phase = ''ECHO_FINAL'', msg_in = ''UKFCA'', msg_out = ''ACFKU'', node = ''QNode-Alpha''\<rparr>],
      p_tick = 13,
      p_trace =
        [(Echo ''NICHO'', 200), (Echo ''ACFKU'', 200), (Relay ''ACFKU'' 1, 500),
         (Relay ''ACFKU'' 2, 500), (Relay ''ACFKU'' 3, 500), (Consensus ''ACFKU'', 1000),
         (Consensus ''ACFKU'', 1000), (Consensus ''ACFKU'', 1000), (Ping ''AAAAA'' False, 500),
         (Ping ''UKFCA'' True, 500), (Ping ''UKFCA'' False, 500), (Ping ''UKFCA'' True, 500),
         (Echo ''UKFCA'', 200)]\<rparr>)"
  by (simp add: pipeline_defs quiet_env_def answer_def decode_fixed_counts
      decode_rally_counts vote_fixed_counts aggregate_AAA upt_2 upt_4 upt_1_4)

text \<open>
  C9. The worked run starts its first iteration from NICHE. The record it saves has the
  output of the pong rally, UKFCA, as its input message: \<^verbatim>\<open>'input': current\<close> is read after
  the phases have overwritten \<^verbatim>\<open>current\<close>. The other fields are as the record lists them.
\<close>

theorem loop_record_input_overwritten:
  "current (initial Absent) = ''NICHE'' \<and>
   log_json (iteration quiet_env (initial Absent)) =
     Text (Some (JArray
       [JRecord
         \<lparr>loop = 1, timestamp = ''2026-01-01T00:00:00'', input_msg = ''UKFCA'',
          output_msg = ''ACFKU'',
          jobs =
            [''job'', ''job'', ''job'', ''job'', ''job'', ''job'', ''job'', ''job'', ''job'',
             ''job''],
          job_count = 10, loop_time_seconds = 10, total_jobs_all_time = 10\<rparr>]))"
  by (simp add: quiet_iteration) (simp add: initial_def)

text \<open>
  In general the record saved by \<open>finish\<close> holds, as its input message, the value of
  \<^verbatim>\<open>current\<close> when the final echo has returned.
\<close>

lemma finish_record:
  assumes "finish env st = (None, st')"
  shows "\<exists>rs r. log_json st' = Text (Some (JArray (rs @ [JRecord r]))) \<and>
           input_msg r = current st \<and> output_msg r = response st \<and> loop r = loop_num st \<and>
           jobs r = jobs_this_loop st \<and> job_count r = length (jobs_this_loop st) \<and>
           total_jobs_all_time r = total_jobs st + length (jobs_this_loop st)"
  using assms
  by (auto simp: finish_def Let_def save_loop_result_def loop_data_def log_def sleep_def
      suspend_def shutdown_def split: json.splits if_splits)


subsection \<open>The requests of a pass\<close>

lemma calls_snoc:
  "calls (es @ Submit (backend, qc, shots) # (if b then [Log L_Shutdown] else [])) =
     calls es @ [call_of qc]"
  by (simp add: calls_def submissions_append)

lemma backends_snoc:
  "map fst (submissions (es @ Submit (backend, qc, shots) # (if b then [Log L_Shutdown] else []))) =
     map fst (submissions es) @ [backend]"
  by (simp add: submissions_append)

lemma relay_leg_trace:
  "trace (snd (relay_leg env (leg, backend) st)) =
     trace st @ Submit (backend, build_relay (current st) leg, 500) #
       (if signal_at env (tick st) then [Log L_Shutdown] else [])"
  unfolding relay_leg_def
  by (simp only: prod.case andthen_trace [OF take_response_trace] hw_decode_trace)

lemma rally_step_trace:
  "trace (snd (rally_step env k st)) =
     trace st @ Submit ([Backend_A, Backend_B] ! (k mod 2), build_ping (current st) (k mod 2 = 1), 500) #
       (if signal_at env (tick st) then [Log L_Shutdown] else [])"
  unfolding rally_step_def Let_def
  by (simp only: andthen_trace [OF take_response_trace] hw_decode_trace)

lemma do_vote_trace:
  "trace (snd (do_vote env backend msg st)) =
     trace st @ Submit (backend, build_consensus msg, 1000) #
       (if signal_at env (tick st) then [Log L_Shutdown] else [])"
  using run_hw_trace [of env backend "build_consensus msg" 1000 st]
  by (auto simp: do_vote_def split: prod.splits sum.splits)

lemma fan_in_trace: "trace (snd (fan_in futs st)) = trace st"
  by (induction futs st rule: fan_in.induct) simp_all

lemma fan_out_calls:
  "calls (trace (snd (fan_out env st))) = calls (trace st) @ [CONSENSUS, CONSENSUS, CONSENSUS] \<and>
   map fst (submissions (trace (snd (fan_out env st)))) =
     map fst (submissions (trace st)) @ [Backend_A, Backend_B, Backend_C]"
proof -
  obtain r0 st0 where a: "do_vote env Backend_A (current st) st = (r0, st0)"
    by (cases "do_vote env Backend_A (current st) st")
  obtain r1 st1 where b: "do_vote env Backend_B (current st) st0 = (r1, st1)"
    by (cases "do_vote env Backend_B (current st) st0")
  obtain r2 st2 where c: "do_vote env Backend_C (current st) st1 = (r2, st2)"
    by (cases "do_vote env Backend_C (current st) st1")
  from do_vote_trace [of env Backend_A "current st" st] a
  have t0: "calls (trace st0) = calls (trace st) @ [CONSENSUS]"
    "map fst (submissions (trace st0)) = map fst (submissions (trace st)) @ [Backend_A]"
    by (simp_all add: calls_snoc backends_snoc build_consensus_def)
  from do_vote_trace [of env Backend_B "current st" st0] b
  have t1: "calls (trace st1) = calls (trace st0) @ [CONSENSUS]"
    "map fst (submissions (trace st1)) = map fst (submissions (trace st0)) @ [Backend_B]"
    by (simp_all add: calls_snoc backends_snoc build_consensus_def)
  from do_vote_trace [of env Backend_C "current st" st1] c
  have t2: "calls (trace st2) = calls (trace st1) @ [CONSENSUS]"
    "map fst (submissions (trace st2)) = map fst (submissions (trace st1)) @ [Backend_C]"
    by (simp_all add: calls_snoc backends_snoc build_consensus_def)
  from a b c t0 t1 t2 show ?thesis by (simp add: fan_out_def)
qed

lemma consensus_trace:
  "\<exists>st1. trace (snd (consensus env st)) = trace st1 \<and> snd (fan_out env (st\<lparr>votes := []\<rparr>)) = st1"
proof -
  obtain futs st1 where a: "fan_out env (st\<lparr>votes := []\<rparr>) = (futs, st1)"
    by (cases "fan_out env (st\<lparr>votes := []\<rparr>)")
  obtain r st2 where b: "fan_in (as_completed (completion env (tick st)) futs) st1 = (r, st2)"
    by (cases "fan_in (as_completed (completion env (tick st)) futs) st1")
  from fan_in_trace [of "as_completed (completion env (tick st)) futs" st1] b
  have "trace st2 = trace st1" by simp
  with a b have "trace (snd (consensus env st)) = trace st1"
    by (auto simp: consensus_def split: option.splits sum.splits prod.splits)
  with a show ?thesis by simp
qed

lemma consensus_calls:
  "calls (trace (snd (consensus env st))) = calls (trace st) @ [CONSENSUS, CONSENSUS, CONSENSUS] \<and>
   map fst (submissions (trace (snd (consensus env st)))) =
     map fst (submissions (trace st)) @ [Backend_A, Backend_B, Backend_C]"
  using consensus_trace [of env st] fan_out_calls [of env "st\<lparr>votes := []\<rparr>"] by auto

lemma for_each_2_None:
  "for_each body [a, b] st = (None, st') \<Longrightarrow>
     \<exists>s1. body a st = (None, s1) \<and> body b s1 = (None, st')"
  by (auto split: prod.splits option.splits)

lemma for_each_3_None:
  "for_each body [a, b, c] st = (None, st') \<Longrightarrow>
     \<exists>s1 s2. body a st = (None, s1) \<and> body b s1 = (None, s2) \<and> body c s2 = (None, st')"
  by (auto split: prod.splits option.splits)

lemma for_each_4_None:
  "for_each body [a, b, c, d] st = (None, st') \<Longrightarrow>
     \<exists>s1 s2 s3. body a st = (None, s1) \<and> body b s1 = (None, s2) \<and>
       body c s2 = (None, s3) \<and> body d s3 = (None, st')"
  by (auto split: prod.splits option.splits)

text \<open>The ten requests of a pass of the persistent loop that raises nowhere.\<close>

lemma phases_calls:
  assumes "phases env st = (None, st')"
  shows "calls (trace st') =
           calls (trace st) @
             [ECHO, RELAY 1, RELAY 2, RELAY 3, CONSENSUS, CONSENSUS, CONSENSUS, PING, PONG, ECHO] \<and>
         map fst (submissions (trace st')) =
           map fst (submissions (trace st)) @
             [Backend_A, Backend_A, Backend_B, Backend_C, Backend_A, Backend_B, Backend_C,
              Backend_A, Backend_B, Backend_A]"
proof -
  from assms obtain s1 where e: "echo env st = (None, s1)" and
    r1: "andthen (relay env) (andthen (consensus env)
           (andthen (pingpong env) (final_echo env))) s1 = (None, st')"
    unfolding phases_def by (blast dest: andthen_None)
  from r1 obtain s4 where rl: "relay env s1 = (None, s4)" and
    r2: "andthen (consensus env) (andthen (pingpong env) (final_echo env)) s4 = (None, st')"
    by (blast dest: andthen_None)
  from r2 obtain s5 where c: "consensus env s4 = (None, s5)" and
    r3: "andthen (pingpong env) (final_echo env) s5 = (None, st')"
    by (blast dest: andthen_None)
  from r3 obtain s7 where p: "pingpong env s5 = (None, s7)" and
    f: "final_echo env s7 = (None, st')"
    by (blast dest: andthen_None)
  from rl obtain s2 s3 where
    l1: "relay_leg env (1, Backend_A) s1 = (None, s2)" and
    l2: "relay_leg env (2, Backend_B) s2 = (None, s3)" and
    l3: "relay_leg env (3, Backend_C) s3 = (None, s4)"
    unfolding relay_def by (blast dest: for_each_3_None)
  from p obtain s6 where
    p0: "rally_step env 0 s5 = (None, s6)" and
    p1: "rally_step env 1 s6 = (None, s7)"
    unfolding pingpong_def upt_2 by (blast dest: for_each_2_None)
  from echo_trace [of env st] e have t1:
    "calls (trace s1) = calls (trace st) @ [ECHO]"
    "map fst (submissions (trace s1)) = map fst (submissions (trace st)) @ [Backend_A]"
    by (simp_all add: calls_snoc backends_snoc build_echo_def)
  from relay_leg_trace [of env 1 Backend_A s1] l1 have t2:
    "calls (trace s2) = calls (trace s1) @ [RELAY 1]"
    "map fst (submissions (trace s2)) = map fst (submissions (trace s1)) @ [Backend_A]"
    by (simp_all add: calls_snoc backends_snoc build_relay_def)
  from relay_leg_trace [of env 2 Backend_B s2] l2 have t3:
    "calls (trace s3) = calls (trace s2) @ [RELAY 2]"
    "map fst (submissions (trace s3)) = map fst (submissions (trace s2)) @ [Backend_B]"
    by (simp_all add: calls_snoc backends_snoc build_relay_def)
  from relay_leg_trace [of env 3 Backend_C s3] l3 have t4:
    "calls (trace s4) = calls (trace s3) @ [RELAY 3]"
    "map fst (submissions (trace s4)) = map fst (submissions (trace s3)) @ [Backend_C]"
    by (simp_all add: calls_snoc backends_snoc build_relay_def)
  from consensus_calls [of env s4] c have t5:
    "calls (trace s5) = calls (trace s4) @ [CONSENSUS, CONSENSUS, CONSENSUS]"
    "map fst (submissions (trace s5)) =
       map fst (submissions (trace s4)) @ [Backend_A, Backend_B, Backend_C]"
    by simp_all
  from rally_step_trace [of env 0 s5] p0 have t6:
    "calls (trace s6) = calls (trace s5) @ [PING]"
    "map fst (submissions (trace s6)) = map fst (submissions (trace s5)) @ [Backend_A]"
    by (simp_all add: calls_snoc backends_snoc build_ping_def)
  from rally_step_trace [of env 1 s6] p1 have t7:
    "calls (trace s7) = calls (trace s6) @ [PONG]"
    "map fst (submissions (trace s7)) = map fst (submissions (trace s6)) @ [Backend_B]"
    by (simp_all add: calls_snoc backends_snoc build_ping_def)
  from hw_decode_trace [of env Backend_A "build_echo (current s7)" 200 s7] f have t8:
    "calls (trace st') = calls (trace s7) @ [ECHO]"
    "map fst (submissions (trace st')) = map fst (submissions (trace s7)) @ [Backend_A]"
    by (simp_all add: final_echo_def calls_snoc backends_snoc build_echo_def)
  from t1 t2 t3 t4 t5 t6 t7 t8 show ?thesis by simp
qed


subsection \<open>The requests of the single-run pipeline\<close>

lemma sim_step_kinds: "kinds (snd (sim_step env ph nd qc shots ps)) = kinds ps @ [call_of qc]"
  by (auto simp: sim_step_def run_circuit_def kinds_def split: prod.splits sum.splits)

lemma sim_step_names:
  "sim_step env ph nd qc shots ps = (None, ps') \<Longrightarrow> phase_names ps' = phase_names ps @ [ph]"
  by (auto simp: sim_step_def run_circuit_def phase_names_def split: prod.splits sum.splits)

lemma vote_kinds:
  "kinds (snd (vote env msg ps)) = kinds ps @ [CONSENSUS] \<and>
   phase_names (snd (vote env msg ps)) = phase_names ps"
  by (auto simp: vote_def run_circuit_def kinds_def phase_names_def build_consensus_def
      split: prod.splits sum.splits)

lemma vote_fan_out_kinds:
  "kinds (snd (vote_fan_out env ps)) = kinds ps @ [CONSENSUS, CONSENSUS, CONSENSUS] \<and>
   phase_names (snd (vote_fan_out env ps)) = phase_names ps"
proof -
  obtain r0 p0 where a: "vote env (p_current ps) ps = (r0, p0)"
    by (cases "vote env (p_current ps) ps")
  obtain r1 p1 where b: "vote env (p_current ps) p0 = (r1, p1)"
    by (cases "vote env (p_current ps) p0")
  obtain r2 p2 where c: "vote env (p_current ps) p1 = (r2, p2)"
    by (cases "vote env (p_current ps) p1")
  from vote_kinds [of env "p_current ps" ps] a
  have k0: "kinds p0 = kinds ps @ [CONSENSUS]" "phase_names p0 = phase_names ps" by simp_all
  from vote_kinds [of env "p_current ps" p0] b
  have k1: "kinds p1 = kinds p0 @ [CONSENSUS]" "phase_names p1 = phase_names p0" by simp_all
  from vote_kinds [of env "p_current ps" p1] c
  have k2: "kinds p2 = kinds p1 @ [CONSENSUS]" "phase_names p2 = phase_names p1" by simp_all
  from a b c k0 k1 k2 show ?thesis by (simp add: vote_fan_out_def)
qed

lemma vote_fan_in_kinds:
  "kinds (snd (vote_fan_in futs ps)) = kinds ps \<and>
   phase_names (snd (vote_fan_in futs ps)) = phase_names ps"
  by (induction futs ps rule: vote_fan_in.induct) (simp_all add: kinds_def phase_names_def)

lemma consensus_vote_kinds:
  "kinds (snd (consensus_vote env ps)) = kinds ps @ [CONSENSUS, CONSENSUS, CONSENSUS] \<and>
   (fst (consensus_vote env ps) = None \<longrightarrow>
      phase_names (snd (consensus_vote env ps)) = phase_names ps @ [''CONSENSUS''])"
proof -
  obtain futs ps1 where a: "vote_fan_out env (ps\<lparr>p_votes := []\<rparr>) = (futs, ps1)"
    by (cases "vote_fan_out env (ps\<lparr>p_votes := []\<rparr>)")
  obtain r ps2 where b:
    "vote_fan_in (as_completed (completion env (p_tick ps)) futs) ps1 = (r, ps2)"
    by (cases "vote_fan_in (as_completed (completion env (p_tick ps)) futs) ps1")
  from vote_fan_out_kinds [of env "ps\<lparr>p_votes := []\<rparr>"] a
  have k1: "kinds ps1 = kinds ps @ [CONSENSUS, CONSENSUS, CONSENSUS]" "phase_names ps1 = phase_names ps"
    by (simp_all add: kinds_def phase_names_def)
  from vote_fan_in_kinds [of "as_completed (completion env (p_tick ps)) futs" ps1] b
  have k2: "kinds ps2 = kinds ps1" "phase_names ps2 = phase_names ps1" by simp_all
  from a b k1 k2 show ?thesis
    by (auto simp: consensus_vote_def Let_def kinds_def phase_names_def
        split: option.splits sum.splits prod.splits)
qed

lemma echo_final_kinds:
  "kinds (snd (echo_final env ps)) = kinds ps @ [ECHO] \<and>
   (fst (echo_final env ps) = None \<longrightarrow>
      phase_names (snd (echo_final env ps)) = phase_names ps @ [''ECHO_FINAL''])"
  by (auto simp: echo_final_def run_circuit_def kinds_def phase_names_def build_echo_def
      split: prod.splits sum.splits)

lemma upt_one_4: "[1 ..< 4] = [1, 2, 3::nat]"
  by (simp add: upt_rec)

text \<open>The thirteen requests and the eleven log entries of a complete single run.\<close>

lemma experiment_kinds:
  assumes "full_experiment env = (None, ps)"
  shows "kinds ps =
           [ECHO, ECHO, RELAY 1, RELAY 2, RELAY 3, CONSENSUS, CONSENSUS, CONSENSUS,
            PING, PONG, PING, PONG, ECHO] \<and>
         phase_names ps =
           [''ECHO'', ''ECHO'', ''RELAY'', ''RELAY'', ''RELAY'', ''CONSENSUS'',
            ''PINGPONG'', ''PINGPONG'', ''PINGPONG'', ''PINGPONG'', ''ECHO_FINAL'']"
proof -
  let ?p0 = "\<lparr>p_current = ''NICHO'', p_response = [], p_votes = [], p_final = [],
      pipeline_log = [], p_tick = 0, p_trace = []\<rparr>"
  have z: "kinds ?p0 = []" "phase_names ?p0 = []" by (simp_all add: kinds_def phase_names_def)
  from assms obtain a2 where e: "echo_loop env ?p0 = (None, a2)" and
    r1: "andthen (relay_race env) (andthen (consensus_vote env)
           (andthen (ping_pong env) (echo_final env))) a2 = (None, ps)"
    unfolding full_experiment_def by (blast dest: andthen_None)
  from r1 obtain a5 where rl: "relay_race env a2 = (None, a5)" and
    r2: "andthen (consensus_vote env) (andthen (ping_pong env) (echo_final env)) a5 = (None, ps)"
    by (blast dest: andthen_None)
  from r2 obtain a6 where c: "consensus_vote env a5 = (None, a6)" and
    r3: "andthen (ping_pong env) (echo_final env) a6 = (None, ps)"
    by (blast dest: andthen_None)
  from r3 obtain a10 where p: "ping_pong env a6 = (None, a10)" and
    f: "echo_final env a10 = (None, ps)"
    by (blast dest: andthen_None)
  from e obtain a1 where
    e0: "echo_round env 0 ?p0 = (None, a1)" and e1: "echo_round env 1 a1 = (None, a2)"
    unfolding echo_loop_def upt_2 by (blast dest: for_each_2_None)
  from rl obtain a3 a4 where
    l1: "relay_race_leg env 1 a2 = (None, a3)" and
    l2: "relay_race_leg env 2 a3 = (None, a4)" and
    l3: "relay_race_leg env 3 a4 = (None, a5)"
    unfolding relay_race_def upt_one_4 by (blast dest: for_each_3_None)
  from p obtain a7 a8 a9 where
    p0: "rally env 0 a6 = (None, a7)" and p1: "rally env 1 a7 = (None, a8)" and
    p2: "rally env 2 a8 = (None, a9)" and p3: "rally env 3 a9 = (None, a10)"
    unfolding ping_pong_def upt_4 by (blast dest: for_each_4_None)
  have k1: "kinds a1 = [ECHO]" "phase_names a1 = [''ECHO'']"
    using sim_step_kinds [of env "''ECHO''" "COMPUTERS ! 0" "build_echo (p_current ?p0)" 200 ?p0]
      sim_step_names [of env "''ECHO''" "COMPUTERS ! 0" "build_echo (p_current ?p0)" 200 ?p0 a1]
      e0 z
    by (simp_all add: echo_round_def build_echo_def)
  have k2: "kinds a2 = kinds a1 @ [ECHO]" "phase_names a2 = phase_names a1 @ [''ECHO'']"
    using sim_step_kinds [of env "''ECHO''" "COMPUTERS ! 0" "build_echo (p_current a1)" 200 a1]
      sim_step_names [of env "''ECHO''" "COMPUTERS ! 0" "build_echo (p_current a1)" 200 a1 a2] e1
    by (simp_all add: echo_round_def build_echo_def)
  have k3: "kinds a3 = kinds a2 @ [RELAY 1]" "phase_names a3 = phase_names a2 @ [''RELAY'']"
    using sim_step_kinds [of env "''RELAY''" "COMPUTERS ! (1 - 1)" "build_relay (p_current a2) 1" 500 a2]
      sim_step_names [of env "''RELAY''" "COMPUTERS ! (1 - 1)" "build_relay (p_current a2) 1" 500 a2 a3] l1
    by (simp_all add: relay_race_leg_def build_relay_def)
  have k4: "kinds a4 = kinds a3 @ [RELAY 2]" "phase_names a4 = phase_names a3 @ [''RELAY'']"
    using sim_step_kinds [of env "''RELAY''" "COMPUTERS ! (2 - 1)" "build_relay (p_current a3) 2" 500 a3]
      sim_step_names [of env "''RELAY''" "COMPUTERS ! (2 - 1)" "build_relay (p_current a3) 2" 500 a3 a4] l2
    by (simp_all add: relay_race_leg_def build_relay_def)
  have k5: "kinds a5 = kinds a4 @ [RELAY 3]" "phase_names a5 = phase_names a4 @ [''RELAY'']"
    using sim_step_kinds [of env "''RELAY''" "COMPUTERS ! (3 - 1)" "build_relay (p_current a4) 3" 500 a4]
      sim_step_names [of env "''RELAY''" "COMPUTERS ! (3 - 1)" "build_relay (p_current a4) 3" 500 a4 a5] l3
    by (simp_all add: relay_race_leg_def build_relay_def)
  have k6: "kinds a6 = kinds a5 @ [CONSENSUS, CONSENSUS, CONSENSUS]"
    "phase_names a6 = phase_names a5 @ [''CONSENSUS'']"
    using consensus_vote_kinds [of env a5] c by simp_all
  have k7: "kinds a7 = kinds a6 @ [PING]" "phase_names a7 = phase_names a6 @ [''PINGPONG'']"
    using sim_step_kinds [of env "''PINGPONG''" "COMPUTERS ! (0 mod 2)" "build_ping (p_current a6) (0 mod 2 = (1::nat))" 500 a6]
      sim_step_names [of env "''PINGPONG''" "COMPUTERS ! (0 mod 2)" "build_ping (p_current a6) (0 mod 2 = (1::nat))" 500 a6 a7] p0
    by (simp_all add: rally_def build_ping_def)
  have k8: "kinds a8 = kinds a7 @ [PONG]" "phase_names a8 = phase_names a7 @ [''PINGPONG'']"
    using sim_step_kinds [of env "''PINGPONG''" "COMPUTERS ! (1 mod 2)" "build_ping (p_current a7) (1 mod 2 = (1::nat))" 500 a7]
      sim_step_names [of env "''PINGPONG''" "COMPUTERS ! (1 mod 2)" "build_ping (p_current a7) (1 mod 2 = (1::nat))" 500 a7 a8] p1
    by (simp_all add: rally_def build_ping_def)
  have k9: "kinds a9 = kinds a8 @ [PING]" "phase_names a9 = phase_names a8 @ [''PINGPONG'']"
    using sim_step_kinds [of env "''PINGPONG''" "COMPUTERS ! (2 mod 2)" "build_ping (p_current a8) (2 mod 2 = (1::nat))" 500 a8]
      sim_step_names [of env "''PINGPONG''" "COMPUTERS ! (2 mod 2)" "build_ping (p_current a8) (2 mod 2 = (1::nat))" 500 a8 a9] p2
    by (simp_all add: rally_def build_ping_def)
  have k10: "kinds a10 = kinds a9 @ [PONG]" "phase_names a10 = phase_names a9 @ [''PINGPONG'']"
    using sim_step_kinds [of env "''PINGPONG''" "COMPUTERS ! (3 mod 2)" "build_ping (p_current a9) (3 mod 2 = (1::nat))" 500 a9]
      sim_step_names [of env "''PINGPONG''" "COMPUTERS ! (3 mod 2)" "build_ping (p_current a9) (3 mod 2 = (1::nat))" 500 a9 a10] p3
    by (simp_all add: rally_def build_ping_def)
  have k11: "kinds ps = kinds a10 @ [ECHO]" "phase_names ps = phase_names a10 @ [''ECHO_FINAL'']"
    using echo_final_kinds [of env a10] f by simp_all
  from k1 k2 k3 k4 k5 k6 k7 k8 k9 k10 k11 show ?thesis by simp
qed


text \<open>
  C3, as stated: one pass would submit two echo rounds and four rallies. A pass of the
  persistent loop in the worked run, where no call fails, submits ten requests: one echo
  round and two rallies.
\<close>

theorem phase_order_counterexample:
  "fst (phases quiet_env (initial Absent)) = None \<and>
   calls (trace (snd (phases quiet_env (initial Absent)))) =
     [ECHO, RELAY 1, RELAY 2, RELAY 3, CONSENSUS, CONSENSUS, CONSENSUS, PING, PONG, ECHO] \<and>
   calls (trace (snd (phases quiet_env (initial Absent)))) \<noteq>
     [ECHO, ECHO, RELAY 1, RELAY 2, RELAY 3, CONSENSUS, CONSENSUS, CONSENSUS,
      PING, PONG, PING, PONG, ECHO]"
  by (simp add: quiet_phases calls_def)

text \<open>
  C3, amended. A complete single run of the full experiment submits, in this order, two
  echo rounds, the relay legs 1, 2 and 3, one consensus call per node, four rallies
  alternating ping and pong, and the final echo, and logs the phases in that order. A
  complete pass of the persistent loop submits one echo round, the three relay legs on
  backends A, B and C, one consensus call per backend, one ping on A and one pong on B,
  and the final echo on A.
\<close>

theorem phase_order:
  "(full_experiment env = (None, ps) \<longrightarrow>
      kinds ps =
        [ECHO, ECHO, RELAY 1, RELAY 2, RELAY 3, CONSENSUS, CONSENSUS, CONSENSUS,
         PING, PONG, PING, PONG, ECHO] \<and>
      phase_names ps =
        [''ECHO'', ''ECHO'', ''RELAY'', ''RELAY'', ''RELAY'', ''CONSENSUS'',
         ''PINGPONG'', ''PINGPONG'', ''PINGPONG'', ''PINGPONG'', ''ECHO_FINAL'']) \<and>
   (phases env' st = (None, st') \<longrightarrow>
      calls (trace st') =
        calls (trace st) @
          [ECHO, RELAY 1, RELAY 2, RELAY 3, CONSENSUS, CONSENSUS, CONSENSUS, PING, PONG, ECHO] \<and>
      map fst (submissions (trace st')) =
        map fst (submissions (trace st)) @
          [Backend_A, Backend_A, Backend_B, Backend_C, Backend_A, Backend_B, Backend_C,
           Backend_A, Backend_B, Backend_A])"
  using experiment_kinds [of env ps] phases_calls [of env' st st'] by blast

theorem phase_order_witness:
  "fst (full_experiment quiet_env) = None \<and>
   kinds (snd (full_experiment quiet_env)) =
     [ECHO, ECHO, RELAY 1, RELAY 2, RELAY 3, CONSENSUS, CONSENSUS, CONSENSUS,
      PING, PONG, PING, PONG, ECHO] \<and>
   fst (phases quiet_env (initial Absent)) = None \<and>
   calls (trace (snd (phases quiet_env (initial Absent)))) =
     [ECHO, RELAY 1, RELAY 2, RELAY 3, CONSENSUS, CONSENSUS, CONSENSUS, PING, PONG, ECHO]"
proof -
  have fa: "fst (full_experiment quiet_env) = None" by (simp add: quiet_experiment)
  then have a: "full_experiment quiet_env = (None, snd (full_experiment quiet_env))"
    by (cases "full_experiment quiet_env") simp
  have fb: "fst (phases quiet_env (initial Absent)) = None" by (simp add: quiet_phases)
  then have b: "phases quiet_env (initial Absent) = (None, snd (phases quiet_env (initial Absent)))"
    by (cases "phases quiet_env (initial Absent)") simp
  have z: "calls (trace (initial Absent)) = []" by (simp add: initial_def calls_def)
  have "kinds (snd (full_experiment quiet_env)) =
     [ECHO, ECHO, RELAY 1, RELAY 2, RELAY 3, CONSENSUS, CONSENSUS, CONSENSUS,
      PING, PONG, PING, PONG, ECHO] \<and>
   calls (trace (snd (phases quiet_env (initial Absent)))) =
     calls (trace (initial Absent)) @
     [ECHO, RELAY 1, RELAY 2, RELAY 3, CONSENSUS, CONSENSUS, CONSENSUS, PING, PONG, ECHO]"
    using phase_order [of quiet_env "snd (full_experiment quiet_env)" quiet_env "initial Absent"
      "snd (phases quiet_env (initial Absent))"] a b
    by blast
  with fa fb z show ?thesis by simp
qed

subsection \<open>Signals do not change what a pass does\<close>

lemma submissions_erase:
  "submissions (filter (\<lambda>e. e \<noteq> Log L_Shutdown) es) = submissions es"
  by (induction es rule: submissions.induct) auto

lemma core_erase: "core (erase st) = core st"
  by (simp add: core_def erase_def submissions_erase)

lemma quiet_quiet: "quiet (quiet env) = quiet env"
  by (simp add: quiet_def)

lemma run_hw_erase:
  "run_hw (quiet env) backend qc shots (erase st) =
     (fst (run_hw env backend qc shots st), erase (snd (run_hw env backend qc shots st)))"
  by (simp add: run_hw_def suspend_def shutdown_def log_def quiet_def erase_def)

lemma hw_decode_erase:
  "hw_decode (quiet env) backend qc shots (erase st) = erase_res (hw_decode env backend qc shots st)"
proof -
  obtain r st1 where a: "run_hw env backend qc shots st = (r, st1)"
    by (cases "run_hw env backend qc shots st")
  with run_hw_erase [of env backend qc shots st]
  have a': "run_hw (quiet env) backend qc shots (erase st) = (r, erase st1)" by simp
  have u: "erase (st1\<lparr>response := x, jobs_this_loop := jobs_this_loop st1 @ [j]\<rparr>) =
      (erase st1)\<lparr>response := x, jobs_this_loop := jobs_this_loop (erase st1) @ [j]\<rparr>" for x j
    by (simp add: erase_def)
  show ?thesis
    unfolding hw_decode_def a a' erase_res_def
    by (simp add: u split: sum.splits prod.splits)
qed

lemma take_response_erase: "take_response (erase s) = erase_res (take_response s)"
  by (simp add: take_response_def erase_res_def erase_def)

lemma andthen_erase:
  assumes "f' (erase st) = erase_res (f st)" and "\<And>s. g' (erase s) = erase_res (g s)"
  shows "andthen f' g' (erase st) = erase_res (andthen f g st)"
  using assms by (auto simp: andthen_def erase_res_def split: prod.splits option.splits)

lemma for_each_erase:
  assumes "\<And>x s. body' x (erase s) = erase_res (body x s)"
  shows "for_each body' xs (erase st) = erase_res (for_each body xs st)"
proof (induction xs arbitrary: st)
  case Nil
  show ?case by (simp add: erase_res_def)
next
  case (Cons x xs)
  obtain r s1 where b: "body x st = (r, s1)" by (cases "body x st")
  with assms [of x st] have b': "body' x (erase st) = (r, erase s1)" by (simp add: erase_res_def)
  show ?case
  proof (cases r)
    case None
    with b b' Cons.IH [of s1] show ?thesis by simp
  next
    case (Some e)
    with b b' show ?thesis by (simp add: erase_res_def)
  qed
qed

lemma erase_fields:
  "current (erase st) = current st" "tick (erase st) = tick st" "votes (erase st) = votes st"
  by (simp_all add: erase_def)

lemma quiet_fields:
  "completion (quiet env) = completion env" "set_rank (quiet env) = set_rank env"
  "hardware (quiet env) = hardware env" "writable (quiet env) = writable env"
  "now (quiet env) = now env" "elapsed (quiet env) = elapsed env"
  by (simp_all add: quiet_def)

lemma echo_erase: "echo (quiet env) (erase st) = erase_res (echo env st)"
  unfolding echo_def erase_fields
  by (rule andthen_erase) (rule hw_decode_erase, rule take_response_erase)

lemma relay_leg_erase: "relay_leg (quiet env) lb (erase st) = erase_res (relay_leg env lb st)"
  unfolding relay_leg_def erase_fields
  by (cases lb) (simp, rule andthen_erase, rule hw_decode_erase, rule take_response_erase)

lemma relay_erase: "relay (quiet env) (erase st) = erase_res (relay env st)"
  unfolding relay_def by (rule for_each_erase) (rule relay_leg_erase)

lemma rally_step_erase: "rally_step (quiet env) k (erase st) = erase_res (rally_step env k st)"
  unfolding rally_step_def Let_def erase_fields
  by (rule andthen_erase) (rule hw_decode_erase, rule take_response_erase)

lemma pingpong_erase: "pingpong (quiet env) (erase st) = erase_res (pingpong env st)"
  unfolding pingpong_def by (rule for_each_erase) (rule rally_step_erase)

lemma final_echo_erase: "final_echo (quiet env) (erase st) = erase_res (final_echo env st)"
  unfolding final_echo_def erase_fields by (rule hw_decode_erase)

lemma do_vote_erase:
  "do_vote (quiet env) backend msg (erase st) =
     (fst (do_vote env backend msg st), erase (snd (do_vote env backend msg st)))"
  by (auto simp: do_vote_def run_hw_erase split: prod.splits sum.splits)

lemma fan_out_erase:
  "fan_out (quiet env) (erase st) = (fst (fan_out env st), erase (snd (fan_out env st)))"
  by (simp add: fan_out_def do_vote_erase erase_fields split: prod.splits)

lemma fan_in_erase: "fan_in futs (erase st) = erase_res (fan_in futs st)"
proof (induction futs st rule: fan_in.induct)
  case (1 st)
  show ?case by (simp add: erase_res_def)
next
  case (2 e rest st)
  show ?case by (simp add: erase_res_def)
next
  case (3 ch jid rest st)
  have "erase (st\<lparr>votes := votes st @ [ch], jobs_this_loop := jobs_this_loop st @ [jid]\<rparr>) =
      (erase st)\<lparr>votes := votes (erase st) @ [ch],
        jobs_this_loop := jobs_this_loop (erase st) @ [jid]\<rparr>"
    by (simp add: erase_def)
  with "3.IH" show ?case by simp
qed

lemma consensus_erase: "consensus (quiet env) (erase st) = erase_res (consensus env st)"
proof -
  have e0: "(erase st)\<lparr>votes := []\<rparr> = erase (st\<lparr>votes := []\<rparr>)" by (simp add: erase_def)
  obtain futs st1 where a: "fan_out env (st\<lparr>votes := []\<rparr>) = (futs, st1)"
    by (cases "fan_out env (st\<lparr>votes := []\<rparr>)")
  with fan_out_erase [of env "st\<lparr>votes := []\<rparr>"]
  have a': "fan_out (quiet env) (erase (st\<lparr>votes := []\<rparr>)) = (futs, erase st1)" by simp
  obtain r st2 where b: "fan_in (as_completed (completion env (tick st)) futs) st1 = (r, st2)"
    by (cases "fan_in (as_completed (completion env (tick st)) futs) st1")
  with fan_in_erase [of "as_completed (completion env (tick st)) futs" st1]
  have b': "fan_in (as_completed (completion env (tick st)) futs) (erase st1) = (r, erase st2)"
    by (simp add: erase_res_def)
  have c: "erase (st2\<lparr>current := m\<rparr>) = (erase st2)\<lparr>current := m\<rparr>" for m
    by (simp add: erase_def)
  from a a' b b' c show ?thesis
    by (auto simp: consensus_def e0 erase_fields quiet_fields erase_res_def
        split: option.splits sum.splits prod.splits)
qed

lemma phases_erase: "phases (quiet env) (erase st) = erase_res (phases env st)"
  unfolding phases_def
  by (intro andthen_erase echo_erase relay_erase consensus_erase pingpong_erase final_echo_erase)


lemma start_loop_erase: "start_loop (erase st) = erase (start_loop st)"
  by (simp add: start_loop_def log_def erase_def)

lemma on_error_core: "core (on_error (quiet env) e (erase s)) = core (on_error env e s)"
  by (simp add: on_error_def sleep_def suspend_def shutdown_def log_def quiet_def erase_def
      core_def submissions_append submissions_erase)

lemma save_erase:
  "save_loop_result (quiet env) data (erase s) = erase_res (save_loop_result env data s)"
  by (simp add: save_loop_result_def quiet_def erase_def erase_res_def split: json.splits)

lemma loop_data_erase: "loop_data (quiet env) (erase s) = loop_data env s"
  by (simp add: loop_data_def quiet_def erase_def)

text \<open>
  The lines after the phases read the flag only to decide on the pause: with or without
  signals they save the same record and leave the same variables; when the save raises,
  the states agree altogether.
\<close>

lemma finish_core:
  "fst (finish (quiet env) (erase s)) = fst (finish env s) \<and>
   core (snd (finish (quiet env) (erase s))) = core (snd (finish env s)) \<and>
   (fst (finish env s) \<noteq> None \<longrightarrow> snd (finish (quiet env) (erase s)) = erase (snd (finish env s)))"
proof -
  let ?s1 = "s\<lparr>total_jobs := total_jobs s + length (jobs_this_loop s)\<rparr>"
  have e1: "(erase s)\<lparr>total_jobs := total_jobs (erase s) + length (jobs_this_loop (erase s))\<rparr> =
      erase ?s1"
    by (simp add: erase_def)
  obtain r s2 where sv: "save_loop_result env (loop_data env ?s1) ?s1 = (r, s2)"
    by (cases "save_loop_result env (loop_data env ?s1) ?s1")
  with save_erase [of env "loop_data env ?s1" ?s1]
  have sv': "save_loop_result (quiet env) (loop_data (quiet env) (erase ?s1)) (erase ?s1) =
      (r, erase s2)"
    by (simp add: erase_res_def loop_data_erase)
  show ?thesis
  proof (cases r)
    case (Some e)
    with sv sv' show ?thesis by (simp add: finish_def Let_def e1 core_erase)
  next
    case None
    with sv sv' show ?thesis
      by (simp add: finish_def Let_def e1 loop_data_erase)
        (simp add: core_def erase_def log_def sleep_def suspend_def shutdown_def quiet_def
          submissions_append submissions_erase)
  qed
qed

lemma iteration_core: "core (iteration (quiet env) (erase st)) = core (iteration env st)"
proof -
  obtain r s1 where p: "phases env (start_loop st) = (r, s1)"
    by (cases "phases env (start_loop st)")
  with phases_erase [of env "start_loop st"]
  have p': "phases (quiet env) (start_loop (erase st)) = (r, erase s1)"
    by (simp add: erase_res_def start_loop_erase)
  show ?thesis
  proof (cases r)
    case (Some e)
    with p p' show ?thesis
      by (simp add: iteration_def try_body_def andthen_def on_error_core)
  next
    case None
    obtain q s2 where f: "finish env s1 = (q, s2)" by (cases "finish env s1")
    obtain q' s2' where f': "finish (quiet env) (erase s1) = (q', s2')"
      by (cases "finish (quiet env) (erase s1)")
    from finish_core [of env s1] f f' have
      q: "q' = q" and c: "core s2' = core s2" and e: "q \<noteq> None \<longrightarrow> s2' = erase s2"
      by simp_all
    show ?thesis
    proof (cases q)
      case None
      with p p' f f' q c \<open>r = None\<close> show ?thesis
        by (simp add: iteration_def try_body_def andthen_def)
    next
      case (Some e')
      with e have "s2' = erase s2" by simp
      with p p' f f' q Some \<open>r = None\<close> show ?thesis
        by (simp add: iteration_def try_body_def andthen_def on_error_core)
    qed
  qed
qed

lemma iteration_quiet_core: "core (iteration env st) = core (iteration (quiet env) st)"
  using iteration_core [of env st] iteration_core [of "quiet env" st]
  by (simp add: quiet_quiet)

lemma main_loop_stopped: "\<not> running st \<Longrightarrow> main_loop env fuel st = Some (stopped st)"
  by (cases fuel) simp_all

text \<open>
  C8. The handler sets the flag and nothing reads it inside a pass. When a signal is
  delivered during a tick of an iteration, the iteration does what it would have done
  without any signal: the same requests, the same record saved, the same variables. The
  flag is cleared when the iteration ends, no further iteration starts, and the loop
  returns, whatever fuel is left.
\<close>

theorem graceful_shutdown:
  assumes "running st" and "tick st \<le> t" and "t < tick (iteration env st)" and "signal_at env t"
  shows "\<not> running (iteration env st) \<and>
         core (iteration env st) = core (iteration (quiet env) st) \<and>
         main_loop env (Suc fuel) st = Some (stopped (iteration env st))"
proof -
  from iteration_running [of st env] assms have nr: "\<not> running (iteration env st)" by blast
  then have "main_loop env fuel (iteration env st) = Some (stopped (iteration env st))"
    by (rule main_loop_stopped)
  with assms(1) have "main_loop env (Suc fuel) st = Some (stopped (iteration env st))" by simp
  with nr iteration_quiet_core [of env st] show ?thesis by blast
qed

text \<open>
  The witness: the signal arrives during the fourth hardware call, relay leg 3. The
  iteration goes on through the consensus, the rallies and the final echo and submits
  the ten requests of the run without signal; the loop stops after it.
\<close>

lemma iteration_tick:
  "tick (snd (phases env (start_loop st))) \<le> tick (iteration env st)"
proof -
  obtain r s1 where p: "phases env (start_loop st) = (r, s1)"
    by (cases "phases env (start_loop st)")
  show ?thesis
  proof (cases r)
    case (Some e)
    with p have "iteration env st = on_error env e s1"
      by (simp add: iteration_def try_body_def andthen_def)
    with follows_on_error [of env s1 e] p show ?thesis by (simp add: follows_def)
  next
    case None
    obtain q s2 where f: "finish env s1 = (q, s2)" by (cases "finish env s1")
    from follows_finish [of env s1] f have t: "tick s1 \<le> tick s2" by (simp add: follows_def)
    show ?thesis
    proof (cases q)
      case None
      with p f \<open>r = None\<close> have "iteration env st = s2"
        by (simp add: iteration_def try_body_def andthen_def)
      with t p show ?thesis by simp
    next
      case (Some e)
      with p f \<open>r = None\<close> have "iteration env st = on_error env e s2"
        by (simp add: iteration_def try_body_def andthen_def)
      with follows_on_error [of env s2 e] t p show ?thesis by (simp add: follows_def)
    qed
  qed
qed

lemma quiet_signal_env: "quiet signal_env = quiet_env"
  by (simp add: quiet_def signal_env_def quiet_env_def)

lemma quiet_start_tick: "tick (snd (phases quiet_env (start_loop (initial Absent)))) = 10"
  by (simp add: loop_defs initial_def quiet_env_def answer_def decode_fixed_counts
      decode_rally_counts vote_fixed_counts aggregate_AAA upt_2)

lemma signal_start_tick: "tick (snd (phases signal_env (start_loop (initial Absent)))) = 10"
proof -
  have e: "erase (start_loop (initial Absent)) = start_loop (initial Absent)"
    by (simp add: erase_def start_loop_def initial_def log_def)
  from phases_erase [of signal_env "start_loop (initial Absent)"]
  have "phases quiet_env (start_loop (initial Absent)) =
      erase_res (phases signal_env (start_loop (initial Absent)))"
    by (simp add: quiet_signal_env e)
  then have "tick (snd (phases quiet_env (start_loop (initial Absent)))) =
      tick (snd (phases signal_env (start_loop (initial Absent))))"
    by (simp add: erase_res_def erase_def)
  with quiet_start_tick show ?thesis by simp
qed

theorem graceful_shutdown_witness:
  "running (initial Absent) \<and> tick (initial Absent) \<le> 3 \<and>
   3 < tick (iteration signal_env (initial Absent)) \<and> signal_at signal_env 3 \<and>
   \<not> running (iteration signal_env (initial Absent)) \<and>
   main_loop signal_env (Suc 0) (initial Absent) =
     Some (stopped (iteration signal_env (initial Absent))) \<and>
   submissions (trace (iteration signal_env (initial Absent))) =
     [(Backend_A, Echo ''NICHE'', 200), (Backend_A, Relay ''ACFKU'' 1, 500),
      (Backend_B, Relay ''ACFKU'' 2, 500), (Backend_C, Relay ''ACFKU'' 3, 500),
      (Backend_A, Consensus ''ACFKU'', 1000), (Backend_B, Consensus ''ACFKU'', 1000),
      (Backend_C, Consensus ''ACFKU'', 1000), (Backend_A, Ping ''AAAAA'' False, 500),
      (Backend_B, Ping ''UKFCA'' True, 500), (Backend_A, Echo ''UKFCA'', 200)]"
proof -
  have h1: "running (initial Absent)" and h2: "tick (initial Absent) \<le> 3"
    by (simp_all add: initial_def)
  have h3: "3 < tick (iteration signal_env (initial Absent))"
    using iteration_tick [of signal_env "initial Absent"] signal_start_tick by simp
  have h4: "signal_at signal_env 3" by (simp add: signal_env_def)
  from graceful_shutdown [OF h1 h2 h3 h4, of 0] have
    nr: "\<not> running (iteration signal_env (initial Absent))" and
    c: "core (iteration signal_env (initial Absent)) = core (iteration quiet_env (initial Absent))" and
    m: "main_loop signal_env (Suc 0) (initial Absent) =
          Some (stopped (iteration signal_env (initial Absent)))"
    by (simp_all add: quiet_signal_env)
  from c have "submissions (trace (iteration signal_env (initial Absent))) =
      submissions (trace (iteration quiet_env (initial Absent)))"
    by (simp add: core_def)
  then have s: "submissions (trace (iteration signal_env (initial Absent))) =
     [(Backend_A, Echo ''NICHE'', 200), (Backend_A, Relay ''ACFKU'' 1, 500),
      (Backend_B, Relay ''ACFKU'' 2, 500), (Backend_C, Relay ''ACFKU'' 3, 500),
      (Backend_A, Consensus ''ACFKU'', 1000), (Backend_B, Consensus ''ACFKU'', 1000),
      (Backend_C, Consensus ''ACFKU'', 1000), (Backend_A, Ping ''AAAAA'' False, 500),
      (Backend_B, Ping ''UKFCA'' True, 500), (Backend_A, Echo ''UKFCA'', 200)]"
    by (simp add: quiet_iteration)
  from h1 h2 h3 h4 nr m s show ?thesis by blast
qed


end
